theory Spec2Isabelle
  imports Main
begin

section \<open>JavaScript strings\<close>

text \<open>
  A JavaScript string is a sequence of UTF-16 code units. The model uses \<^typ>\<open>string\<close>,
  one \<^typ>\<open>char\<close> per code unit, so it covers the strings whose code units are below 256
  (ASCII and Latin-1). In that range the line terminators of ECMAScript are LF and CR
  (the other two, U+2028 and U+2029, lie outside it), and the white space removed by
  \<open>trim\<close> is TAB, LF, VT, FF, CR, SPACE and NBSP.
\<close>

definition isLineTerminator :: "char \<Rightarrow> bool" where
  "isLineTerminator c = (c = CHR 0x0A \<or> c = CHR 0x0D)"

definition isWhiteSpace :: "char \<Rightarrow> bool" where
  "isWhiteSpace c = (c \<in> set [CHR 0x09, CHR 0x0A, CHR 0x0B, CHR 0x0C, CHR 0x0D, CHR 0x20, CHR 0xA0])"

text \<open>\<open>String.prototype.trim\<close>.\<close>

definition trim :: "string \<Rightarrow> string" where
  "trim s = rev (dropWhile isWhiteSpace (rev (dropWhile isWhiteSpace s)))"

text \<open>
  \<open>String.prototype.toLowerCase\<close> on one code unit: \<open>A\<close>..\<open>Z\<close> and the Latin-1
  capitals 0xC0..0xDE (without the multiplication sign 0xD7) move up by 32.
\<close>

definition toLowerCase_char :: "char \<Rightarrow> char" where
  "toLowerCase_char c =
     (let n = (of_char c :: nat) in
      if (65 \<le> n \<and> n \<le> 90) \<or> (192 \<le> n \<and> n \<le> 222 \<and> n \<noteq> 215)
      then char_of (n + 32) else c)"

definition toLowerCase :: "string \<Rightarrow> string" where
  "toLowerCase s = map toLowerCase_char s"

text \<open>
  \<open>Canonicalize\<close> of the regular expression semantics (flag \<open>i\<close>, no flag \<open>u\<close>): the
  upper-case form of the code unit. Micro sign, sharp s and y with diaeresis have no
  upper-case form inside Latin-1 and no other Latin-1 character shares theirs, so on
  this range leaving them fixed gives the same comparison.
\<close>

definition canonicalize :: "bool \<Rightarrow> char \<Rightarrow> char" where
  "canonicalize ignoreCase c =
     (let n = (of_char c :: nat) in
      if ignoreCase \<and> ((97 \<le> n \<and> n \<le> 122) \<or> (224 \<le> n \<and> n \<le> 254 \<and> n \<noteq> 247))
      then char_of (n - 32) else c)"

section \<open>Regular expressions\<close>

text \<open>
  The fragment of ECMAScript patterns that the plugin's three literals and the filter
  rule of the spec's scenario use: single characters, the dot, character classes,
  sequence, the greedy star, capturing groups and the start anchor. \<open>r+\<close> is
  \<open>Seq r (Star r)\<close>.
\<close>

datatype regex =
    Empty
  | Char char
  | Dot
  | CharClass bool "(char \<times> char) list"
  | Seq regex regex
  | Star regex
  | Group nat regex
  | Bol

text \<open>
  A matcher state: the index reached in the subject, the rest of the subject from that
  index, and the captures recorded so far (most recent first). The patterns that are
  matched here have no group under a star (the constructor below accepts no group at
  all), so no capture is ever reset.
\<close>

type_synonym mstate = "nat \<times> string \<times> (nat \<times> string) list"

text \<open>
  Membership in a class given by its ranges. With the flag \<open>i\<close> a character matches when
  some member of the class has its canonical form; the characters with the canonical
  form of \<open>c\<close> are \<open>c\<close>, its upper-case form and its lower-case form.
\<close>

definition inRange :: "char \<Rightarrow> char \<Rightarrow> char \<Rightarrow> bool" where
  "inRange lo hi c = ((of_char lo :: nat) \<le> of_char c \<and> (of_char c :: nat) \<le> of_char hi)"

definition inClass :: "bool \<Rightarrow> (char \<times> char) list \<Rightarrow> char \<Rightarrow> bool" where
  "inClass ignoreCase ranges c =
     list_ex (\<lambda>(lo, hi). inRange lo hi c
                \<or> (ignoreCase \<and> (inRange lo hi (canonicalize True c) \<or> inRange lo hi (toLowerCase_char c))))
       ranges"

text \<open>
  The backtracking matcher, as the list of all the states in which a match of the
  pattern can end, in the order in which backtracking tries them: the head of the list
  is the result of the ECMAScript matcher. The star tries one more iteration first
  (greedy) and rejects an iteration that consumes nothing, as the specification's
  \<open>RepeatMatcher\<close> does.
\<close>

fun rmatch :: "bool \<Rightarrow> regex \<Rightarrow> mstate \<Rightarrow> mstate list" where
  "rmatch i Empty st = [st]"
| "rmatch i (Char c) (p, s, caps) =
     (case s of
        [] \<Rightarrow> []
      | x # xs \<Rightarrow> if canonicalize i x = canonicalize i c then [(Suc p, xs, caps)] else [])"
| "rmatch i Dot (p, s, caps) =
     (case s of
        [] \<Rightarrow> []
      | x # xs \<Rightarrow> if isLineTerminator x then [] else [(Suc p, xs, caps)])"
| "rmatch i (CharClass neg ranges) (p, s, caps) =
     (case s of
        [] \<Rightarrow> []
      | x # xs \<Rightarrow> if inClass i ranges x \<noteq> neg then [(Suc p, xs, caps)] else [])"
| "rmatch i (Seq a b) st = concat (map (rmatch i b) (rmatch i a st))"
| "rmatch i (Star r) (p, s, caps) =
     concat (map (\<lambda>(p', s', caps').
                    if length s' < length s then rmatch i (Star r) (p', s', caps') else [])
                 (rmatch i r (p, s, caps)))
     @ [(p, s, caps)]"
| "rmatch i (Group k r) (p, s, caps) =
     map (\<lambda>(p', s', caps'). (p', s', (k, take (p' - p) s) # caps')) (rmatch i r (p, s, caps))"
| "rmatch i Bol (p, s, caps) = (if p = 0 then [(p, s, caps)] else [])"

text \<open>
  One attempt at index \<open>p\<close> (the subject from there is \<open>s\<close>): the length of the match and
  its captures, or \<open>None\<close>.
\<close>

definition matchAt :: "bool \<Rightarrow> regex \<Rightarrow> nat \<Rightarrow> string \<Rightarrow> (nat \<times> (nat \<times> string) list) option" where
  "matchAt i r p s =
     (case rmatch i r (p, s, []) of
        [] \<Rightarrow> None
      | (p', s', caps) # _ \<Rightarrow> Some (p' - p, caps))"

text \<open>The numbers of the capturing groups of a pattern.\<close>

fun groupsOf :: "regex \<Rightarrow> nat list" where
  "groupsOf (Seq a b) = groupsOf a @ groupsOf b"
| "groupsOf (Star r) = groupsOf r"
| "groupsOf (Group k r) = k # groupsOf r"
| "groupsOf r = []"

text \<open>
  \<open>GetSubstitution\<close>: the replacement template with \<open>$$\<close>, \<open>$&\<close> and \<open>$1\<close>..\<open>$9\<close>
  expanded. \<open>$n\<close> stands for the capture of group \<open>n\<close> when the pattern has such a
  group (the empty string when the group recorded nothing) and for itself otherwise.
\<close>

fun getSubstitution :: "string \<Rightarrow> nat list \<Rightarrow> (nat \<times> string) list \<Rightarrow> string \<Rightarrow> string" where
  "getSubstitution matched groups caps [] = []"
| "getSubstitution matched groups caps [c] = [c]"
| "getSubstitution matched groups caps (c # d # rest) =
     (if c = CHR ''$'' \<and> d = CHR ''$'' then CHR ''$'' # getSubstitution matched groups caps rest
      else if c = CHR ''$'' \<and> d = CHR ''&'' then matched @ getSubstitution matched groups caps rest
      else if c = CHR ''$'' \<and> d \<in> set ''123456789'' \<and> (of_char d - 48) \<in> set groups
      then (case map_of caps (of_char d - 48) of None \<Rightarrow> [] | Some t \<Rightarrow> t)
           @ getSubstitution matched groups caps rest
      else c # getSubstitution matched groups caps (d # rest))"

text \<open>
  \<open>String.prototype.replace\<close> with a regular expression that has the flag \<open>g\<close>: scan
  from the left; at each index take the match that starts there if there is one,
  put the substitution in its place and go on behind it (one further after an empty
  match, whose next character is copied); copy the characters where nothing matches.
\<close>

fun replaceFrom :: "bool \<Rightarrow> regex \<Rightarrow> string \<Rightarrow> nat \<Rightarrow> string \<Rightarrow> string" where
  "replaceFrom i r tpl p [] =
     (case matchAt i r p [] of
        None \<Rightarrow> []
      | Some (n, caps) \<Rightarrow> getSubstitution [] (groupsOf r) caps tpl)"
| "replaceFrom i r tpl p (x # xs) =
     (case matchAt i r p (x # xs) of
        None \<Rightarrow> x # replaceFrom i r tpl (Suc p) xs
      | Some (n, caps) \<Rightarrow>
          if n = 0 then getSubstitution [] (groupsOf r) caps tpl @ x # replaceFrom i r tpl (Suc p) xs
          else getSubstitution (take n (x # xs)) (groupsOf r) caps tpl
               @ replaceFrom i r tpl (p + n) (drop (n - 1) xs))"

definition replaceAll_regex :: "bool \<Rightarrow> regex \<Rightarrow> string \<Rightarrow> string \<Rightarrow> string" where
  "replaceAll_regex i r tpl s = replaceFrom i r tpl 0 s"

section \<open>Small derivations\<close>

text \<open>\<open>getVoiceName\<close>: \<open>voice.replace(/\(.*\)/g, "")\<close>.\<close>

definition voiceSuffix_re :: regex where
  "voiceSuffix_re = Seq (Char CHR ''('') (Seq (Star Dot) (Char CHR '')''))"

definition getVoiceName :: "string \<Rightarrow> string" where
  "getVoiceName voice = replaceAll_regex False voiceSuffix_re [] voice"

text \<open>
  \<open>getAudioFormatType\<close>:
  \<open>audioFormat.replace(/(.*-)/g, "").toLowerCase() === "mp3" ? "mp3" : "wav"\<close>.
\<close>

definition formatPrefix_re :: regex where
  "formatPrefix_re = Group 1 (Seq (Star Dot) (Char CHR ''-''))"

definition getAudioFormatType :: "string \<Rightarrow> string" where
  "getAudioFormatType audioFormat =
     (if toLowerCase (replaceAll_regex False formatPrefix_re [] audioFormat) = ''mp3''
      then ''mp3'' else ''wav'')"

section \<open>The text filter rule\<close>

text \<open>
  The \<open>RegExp\<close> constructor on the fragment above. A pattern outside the fragment
  (groups, alternation, the lazy and the counted quantifiers, the other escapes) is
  answered with \<open>Unsupported\<close>; a pattern that ECMAScript rejects inside the fragment
  with \<open>SyntaxError\<close>.
\<close>

datatype js_error = SyntaxError | Unsupported

definition classEscape :: "char \<Rightarrow> (char \<times> char) list option" where
  "classEscape c =
     (if c = CHR ''t'' then Some [(CHR 0x09, CHR 0x09)]
      else if c = CHR ''n'' then Some [(CHR 0x0A, CHR 0x0A)]
      else if c = CHR ''v'' then Some [(CHR 0x0B, CHR 0x0B)]
      else if c = CHR ''f'' then Some [(CHR 0x0C, CHR 0x0C)]
      else if c = CHR ''r'' then Some [(CHR 0x0D, CHR 0x0D)]
      else if c = CHR ''d'' then Some [(CHR ''0'', CHR ''9'')]
      else if c = CHR ''w'' then
        Some [(CHR ''a'', CHR ''z''), (CHR ''A'', CHR ''Z''), (CHR ''0'', CHR ''9''), (CHR ''_'', CHR ''_'')]
      else if c = CHR ''s'' then
        Some [(CHR 0x09, CHR 0x0D), (CHR 0x20, CHR 0x20), (CHR 0xA0, CHR 0xA0)]
      else if c = CHR 0x5C \<or> c \<in> set ''^$.*+?()[]{}|/-'' then Some [(c, c)]
      else None)"

text \<open>The members of a class, read up to the closing bracket; the rest of the pattern.\<close>

fun parseClass :: "string \<Rightarrow> (char \<times> char) list \<Rightarrow> js_error + ((char \<times> char) list \<times> string)" where
  "parseClass [] acc = Inl SyntaxError"
| "parseClass (a # rest) acc =
     (if a = CHR '']'' then Inr (rev acc, rest)
      else if a = CHR 0x5C then
        (case rest of
           [] \<Rightarrow> Inl SyntaxError
         | c # rest' \<Rightarrow>
             (case classEscape c of
                None \<Rightarrow> Inl Unsupported
              | Some rs \<Rightarrow> parseClass rest' (rev rs @ acc)))
      else
        (case rest of
           m # b # rest' \<Rightarrow>
             if m = CHR ''-'' \<and> b \<noteq> CHR '']'' then
               (if b = CHR 0x5C then Inl Unsupported
                else if (of_char a :: nat) \<le> of_char b then parseClass rest' ((a, b) # acc)
                else Inl SyntaxError)
             else parseClass rest ((a, a) # acc)
         | _ \<Rightarrow> parseClass rest ((a, a) # acc)))"

text \<open>One atom at the head of the pattern; the rest of the pattern.\<close>

definition parseAtom :: "char \<Rightarrow> string \<Rightarrow> js_error + (regex \<times> string)" where
  "parseAtom c rest =
     (if c = CHR ''.'' then Inr (Dot, rest)
      else if c = CHR ''^'' then Inr (Bol, rest)
      else if c = CHR ''['' then
        (case rest of
           [] \<Rightarrow> Inl SyntaxError
         | d # rest' \<Rightarrow>
             (case (if d = CHR ''^'' then parseClass rest' [] else parseClass rest []) of
                Inl e \<Rightarrow> Inl e
              | Inr (rs, rest'') \<Rightarrow> Inr (CharClass (d = CHR ''^'') rs, rest'')))
      else if c = CHR 0x5C then
        (case rest of
           [] \<Rightarrow> Inl SyntaxError
         | d # rest' \<Rightarrow>
             (case classEscape d of
                None \<Rightarrow> Inl Unsupported
              | Some rs \<Rightarrow> Inr (CharClass False rs, rest')))
      else if c \<in> set ''*+?)'' then Inl SyntaxError
      else if c \<in> set ''$(|{'' then Inl Unsupported
      else Inr (Char c, rest))"

text \<open>
  The terms of a pattern, with fuel: every term consumes a character, so the length of
  the pattern is enough fuel (\<open>parseRegExp\<close> gives one more).
\<close>

fun parseTerms :: "nat \<Rightarrow> string \<Rightarrow> js_error + regex" where
  "parseTerms fuel [] = Inr Empty"
| "parseTerms 0 (c # rest) = Inl Unsupported"
| "parseTerms (Suc fuel) (c # rest) =
     (case parseAtom c rest of
        Inl e \<Rightarrow> Inl e
      | Inr (a, rest1) \<Rightarrow>
          (case rest1 of
             [] \<Rightarrow> Inr (Seq a Empty)
           | q # rest2 \<Rightarrow>
               if q = CHR ''*'' \<or> q = CHR ''+'' then
                 (if a = Bol then Inl SyntaxError
                  else if rest2 \<noteq> [] \<and> hd rest2 \<in> set ''?*+{'' then Inl Unsupported
                  else
                    (case parseTerms fuel rest2 of
                       Inl e \<Rightarrow> Inl e
                     | Inr r \<Rightarrow> Inr (Seq (if q = CHR ''*'' then Star a else Seq a (Star a)) r)))
               else if q = CHR ''?'' \<or> q = CHR ''{'' then Inl Unsupported
               else
                 (case parseTerms fuel rest1 of
                    Inl e \<Rightarrow> Inl e
                  | Inr r \<Rightarrow> Inr (Seq a r))))"

definition parseRegExp :: "string \<Rightarrow> js_error + regex" where
  "parseRegExp pattern = parseTerms (Suc (length pattern)) pattern"

text \<open>
  \<open>subject.replace(new RegExp(pattern, flags), replacement)\<close> on the fragment, for
  flags that contain \<open>g\<close>.
\<close>

definition regExpReplace :: "string \<Rightarrow> string \<Rightarrow> string \<Rightarrow> string \<Rightarrow> js_error + string" where
  "regExpReplace pattern flags subject replacement =
     (case parseRegExp pattern of
        Inl e \<Rightarrow> Inl e
      | Inr r \<Rightarrow>
          if CHR ''g'' \<in> set flags
          then Inr (replaceAll_regex (CHR ''i'' \<in> set flags) r replacement subject)
          else Inl Unsupported)"

text \<open>
  \<open>handleTextFormat\<close>:
  \<open>text && rule ? text.replace(new RegExp(rule.replace(/^\/(.*)\/.*/g, "$1"), "gi"), " ") : text\<close>.
  The rule is the user's, so the regular expression built from it can be any pattern of
  ECMAScript; the constructor and the replacement with it are the parameter \<open>engine\<close>
  (pattern, flags, subject, replacement), an error being the exception that the
  constructor throws. The literal that extracts the pattern is evaluated by the matcher
  above.
\<close>

definition rulePattern_re :: regex where
  "rulePattern_re =
     Seq Bol (Seq (Char CHR ''/'') (Seq (Group 1 (Star Dot)) (Seq (Char CHR ''/'') (Star Dot))))"

definition handleTextFormat ::
  "(string \<Rightarrow> string \<Rightarrow> string \<Rightarrow> string \<Rightarrow> 'e + string) \<Rightarrow> string \<Rightarrow> string \<Rightarrow> 'e + string" where
  "handleTextFormat engine txt rule =
     (if txt \<noteq> [] \<and> rule \<noteq> []
      then engine (replaceAll_regex False rulePattern_re ''$1'' rule) ''gi'' txt '' ''
      else Inr txt)"

section \<open>The filename timestamp\<close>

text \<open>
  What \<open>new Date()\<close> gives \<open>getDefaultFiletime\<close>: the local year (\<open>getFullYear\<close>),
  the month counted from 0 (\<open>getMonth\<close>), the day of the month, the hours, minutes and
  seconds. The wall clock is the function's only input.
\<close>

record jsDate =
  getFullYear :: int
  getMonth :: nat
  getDate :: nat
  getHours :: nat
  getMinutes :: nat
  getSeconds :: nat

definition digitChar :: "nat \<Rightarrow> char" where
  "digitChar d = char_of (48 + d)"

definition isDigit :: "char \<Rightarrow> bool" where
  "isDigit c = (48 \<le> (of_char c :: nat) \<and> (of_char c :: nat) \<le> 57)"

text \<open>The decimal numeral of an integer, as a template literal prints a number.\<close>

fun natToString :: "nat \<Rightarrow> string" where
  "natToString n = (if n < 10 then [digitChar n] else natToString (n div 10) @ [digitChar (n mod 10)])"

definition numberToString :: "int \<Rightarrow> string" where
  "numberToString k = (if k < 0 then CHR ''-'' # natToString (nat (- k)) else natToString (nat k))"

definition formatTimeNumber :: "nat \<Rightarrow> string" where
  "formatTimeNumber number = (if number > 9 then natToString number else ''0'' @ natToString number)"

text \<open>A number below 100 written with two decimal digits, the first one possibly 0.\<close>

definition twoDigits :: "nat \<Rightarrow> string" where
  "twoDigits n = [digitChar (n div 10), digitChar (n mod 10)]"

definition getDefaultFiletime :: "jsDate \<Rightarrow> string" where
  "getDefaultFiletime date =
     (let year = getFullYear date;
          month = formatTimeNumber (getMonth date + 1);
          day = formatTimeNumber (getDate date);
          hour = formatTimeNumber (getHours date);
          minutes = formatTimeNumber (getMinutes date);
          seconds = formatTimeNumber (getSeconds date)
      in numberToString year @ month @ day @ hour @ minutes @ seconds)"

text \<open>The ranges that the \<open>Date\<close> accessors keep, whatever the clock says.\<close>

definition validDate :: "jsDate \<Rightarrow> bool" where
  "validDate d = (getMonth d \<le> 11 \<and> 1 \<le> getDate d \<and> getDate d \<le> 31 \<and> getHours d \<le> 23
                  \<and> getMinutes d \<le> 59 \<and> getSeconds d \<le> 59)"

section \<open>The text to speak\<close>

text \<open>
  The editor of the host application is an external object; the model takes the answers
  to the queries that \<open>getSelectedText\<close> makes: the selection, the cursor, the index
  of the last line, a line's text, the word at a position (or \<open>null\<close>) and the text of a
  range.
\<close>

record editorPosition =
  line :: nat
  ch :: nat

record editorRange =
  range_from :: editorPosition
  range_to :: editorPosition

record editor =
  getSelection :: string
  getCursor :: editorPosition
  lastLine :: nat
  getLine :: "nat \<Rightarrow> string"
  wordAt :: "editorPosition \<Rightarrow> editorRange option"
  getRange :: "editorPosition \<Rightarrow> editorPosition \<Rightarrow> string"

datatype readScope = Before | After | Off

definition getSelectedText :: "readScope \<Rightarrow> editor option \<Rightarrow> string" where
  "getSelectedText readBeforeOrAfter editor =
     (case editor of
        None \<Rightarrow> []
      | Some ed \<Rightarrow>
          (let content = getSelection ed;
               content =
                 (if readBeforeOrAfter \<noteq> Off then
                    (let from0 = \<lparr>line = 0, ch = 0\<rparr>;
                         to0 = getCursor ed;
                         (from1, to1) =
                           (if readBeforeOrAfter = After then
                              (let lastLineNumber = lastLine ed;
                                   defaultToValue =
                                     \<lparr>line = lastLineNumber, ch = length (getLine ed lastLineNumber)\<rparr>;
                                   lastWordPosition = wordAt ed defaultToValue
                               in (getCursor ed,
                                   case lastWordPosition of
                                     None \<Rightarrow> defaultToValue
                                   | Some w \<Rightarrow> range_to w))
                            else (from0, to0))
                     in if content \<noteq> [] then content else getRange ed from1 to1)
                  else content)
           in trim content))"

section \<open>The synthesis request\<close>

subsection \<open>The shared store and the log of effects\<close>

datatype audioConfig = SpeakerOutput | AudioFileOutput string

record speechConfig =
  subscriptionKey :: string
  serviceRegion :: string
  speechSynthesisVoiceName :: string
  speechSynthesisOutputFormat :: "string option"

datatype messageType = MsgSuccess | MsgError

text \<open>
  Everything that \<open>generateVoice\<close> does to the world outside it, in the order in which it
  does it: the store's actions, the synthesizers constructed and closed, the synthesis
  calls, the notices shown, and the calls of the caller's callback with their argument.
\<close>

datatype event =
    Paused
  | AudioConfigCleared
  | AudioConfigSet audioConfig
  | SynthesizerConstructed nat speechConfig audioConfig
  | SynthesizerSet nat
  | SynthesizerClosed nat
  | SynthesizerCleared
  | SpeakSsml nat string
  | Notice string messageType
  | CallbackInvoked nat "audioConfig option"

text \<open>
  The process-wide state: the store's synthesizer handle, its audio configuration and
  its playing flag; the synthesizer handles that are constructed and not closed; the
  next handle; the log.
\<close>

record world =
  store_synthesizer :: "nat option"
  store_audioConfig :: "audioConfig option"
  store_playing :: bool
  live :: "nat list"
  fresh :: nat
  events :: "event list"

text \<open>
  Modelled from the spec: \<open>actions.pause\<close> of the store (\<open>store.ts\<close> is not among the
  sources). A request begins with two calls of the store, \<open>pause\<close> and
  \<open>clearAudioConfig\<close>, which are the spec's first step: "first cancel any existing
  playback/synthesis (stop audio, release the previous synthesizer handle)". This call
  is the "stop audio": the playing flag goes down.
\<close>

definition pause :: "world \<Rightarrow> world" where
  "pause w = w\<lparr>store_playing := False, events := events w @ [Paused]\<rparr>"

text \<open>
  Modelled from the spec: \<open>actions.clearAudioConfig\<close> of the store, the second call of the
  spec's first step, its "release the previous synthesizer handle". The spec has the
  handle "closed/cleared before a new request starts" and "destroyed on
  completion/error/cancellation-by-new-request", and a new request "always first tears
  down the previous synthesizer handle and stops any active playback before starting the
  new one". So the handle that the store holds is closed and the store forgets it; the
  store's audio configuration is forgotten with it, as the name of the action says.
\<close>

definition clearAudioConfig :: "world \<Rightarrow> world" where
  "clearAudioConfig w =
     (case store_synthesizer w of
        None \<Rightarrow> w\<lparr>store_audioConfig := None, events := events w @ [AudioConfigCleared]\<rparr>
      | Some h \<Rightarrow>
          w\<lparr>store_synthesizer := None, store_audioConfig := None, live := removeAll h (live w),
            events := events w @ [SynthesizerClosed h, AudioConfigCleared]\<rparr>)"

text \<open>
  Modelled from the spec: \<open>actions.setAudioConfig\<close> of the store, which keeps the audio
  configuration of a request that plays.
\<close>

definition setAudioConfig :: "audioConfig \<Rightarrow> world \<Rightarrow> world" where
  "setAudioConfig ac w = w\<lparr>store_audioConfig := Some ac, events := events w @ [AudioConfigSet ac]\<rparr>"

text \<open>
  Modelled from the spec: \<open>actions.setSpeechSynthesizer\<close> of the store, which registers
  the handle as the store's ("held in process-wide state").
\<close>

definition setSpeechSynthesizer :: "nat \<Rightarrow> world \<Rightarrow> world" where
  "setSpeechSynthesizer h w = w\<lparr>store_synthesizer := Some h, events := events w @ [SynthesizerSet h]\<rparr>"

text \<open>
  Modelled from the spec: \<open>actions.clearsynthesizer\<close> of the store, the spec's "always
  release the synthesizer handle" of the last step: the handle that the store holds is
  closed and the store forgets it, as the earlier version of \<open>synthesizerClear\<close> did with
  its own handle (\<open>synthesizer?.close(); synthesizer = null\<close>).
\<close>

definition clearsynthesizer :: "world \<Rightarrow> world" where
  "clearsynthesizer w =
     (case store_synthesizer w of
        None \<Rightarrow> w\<lparr>events := events w @ [SynthesizerCleared]\<rparr>
      | Some h \<Rightarrow>
          w\<lparr>store_synthesizer := None, live := removeAll h (live w),
            events := events w @ [SynthesizerClosed h, SynthesizerCleared]\<rparr>)"

subsection \<open>The speech SDK\<close>

datatype resultReason = SynthesizingAudioCompleted | OtherReason nat

text \<open>
  What the SDK does later with the two callbacks given to \<open>speakSsmlAsync\<close>: it calls
  the first with a result, or the second with an error.
\<close>

datatype callbackEvent = OnResult resultReason | OnError string

text \<open>
  \<open>speakSsmlAsync\<close> throws (the text of the exception), or returns having taken the
  callbacks, one of which it calls later, or none ever.
\<close>

datatype speakOutcome = SpeakThrows string | SpeakStarted "callbackEvent option"

text \<open>
  The SDK as the request meets it. Each constructor may throw: \<open>Some e\<close> is the text of
  the exception as the template literal prints it.
\<close>

record sdk =
  fromSubscription :: "string \<Rightarrow> string \<Rightarrow> string option"
  fromSpeakerOutput :: "string option"
  fromAudioFileOutput :: "string \<Rightarrow> string option"
  newSpeechSynthesizer :: "speechConfig \<Rightarrow> audioConfig \<Rightarrow> string option"
  speakSsmlAsync :: "nat \<Rightarrow> string \<Rightarrow> speakOutcome"

subsection \<open>The request\<close>

datatype outputType = Save | Play

datatype langKey = Zh | En

text \<open>The three messages of \<open>LANGS[lang].tipMessage\<close> that the request shows.\<close>

record tipMessage =
  success_synthesis :: string
  success_save :: string
  error_synthesis :: string

text \<open>
  The argument of \<open>generateVoice\<close>. The string fields are optional (\<open>None\<close> is
  \<open>undefined\<close>); the callback is known by a number; the speed is the text that the
  template literal prints for the number.
\<close>

record config =
  filename :: "string option"
  cfg_text :: "string option"
  key :: "string option"
  region :: "string option"
  filePath :: "string option"
  voice :: "string option"
  cfg_type :: outputType
  lang :: langKey
  callback :: "nat option"
  audioFormat :: "string option"
  audioFormatType :: "string option"
  speed :: string
  regionCode :: "string option"

text \<open>Truthiness of an optional string, \<open>v || ""\<close>, and \<open>${v}\<close>.\<close>

definition truthy :: "string option \<Rightarrow> bool" where
  "truthy v = (case v of None \<Rightarrow> False | Some s \<Rightarrow> s \<noteq> [])"

definition orEmpty :: "string option \<Rightarrow> string" where
  "orEmpty v = (case v of None \<Rightarrow> [] | Some s \<Rightarrow> s)"

definition interpolate :: "string option \<Rightarrow> string" where
  "interpolate v = (case v of None \<Rightarrow> ''undefined'' | Some s \<Rightarrow> s)"

datatype promise = Pending | Resolved bool | Rejected bool

text \<open>A promise settles once: \<open>resolve\<close> and \<open>reject\<close> on a settled promise do nothing.\<close>

definition resolve :: "bool \<Rightarrow> promise \<Rightarrow> promise" where
  "resolve v p = (case p of Pending \<Rightarrow> Resolved v | _ \<Rightarrow> p)"

definition reject :: "bool \<Rightarrow> promise \<Rightarrow> promise" where
  "reject v p = (case p of Pending \<Rightarrow> Rejected v | _ \<Rightarrow> p)"

text \<open>\<open>generateNotice().setMessage(generateNoticeText(message, messageType))\<close>.\<close>

definition generateNotice :: "string \<Rightarrow> messageType \<Rightarrow> world \<Rightarrow> world" where
  "generateNotice message messageType w = w\<lparr>events := events w @ [Notice message messageType]\<rparr>"

definition synthesizerClear :: "config \<Rightarrow> world \<Rightarrow> world" where
  "synthesizerClear cfg w =
     (let w1 = clearsynthesizer w
      in case callback cfg of
           None \<Rightarrow> w1
         | Some cb \<Rightarrow> w1\<lparr>events := events w1 @ [CallbackInvoked cb None]\<rparr>)"

definition audioFileOf :: "config \<Rightarrow> string" where
  "audioFileOf cfg =
     interpolate (filePath cfg) @ ''/'' @ interpolate (filename cfg) @ ''.''
     @ interpolate (audioFormatType cfg)"

definition ssmlContentOf :: "config \<Rightarrow> string" where
  "ssmlContentOf cfg =
     (let dq = [CHR 0x22]; nl = [CHR 0x0A]; tabs = (\<lambda>n. replicate n (CHR 0x09))
      in if truthy (cfg_text cfg) then
           ''<speak version='' @ dq @ ''1.0'' @ dq @ '' xmlns='' @ dq
           @ ''http://www.w3.org/2001/10/synthesis'' @ dq @ '' xml:lang='' @ dq
           @ interpolate (regionCode cfg) @ dq @ ''>'' @ nl
           @ tabs 4 @ ''<voice name='' @ dq @ interpolate (voice cfg) @ dq @ ''>'' @ nl
           @ tabs 5 @ ''<prosody rate='' @ dq @ speed cfg @ dq @ ''>'' @ nl
           @ tabs 6 @ orEmpty (cfg_text cfg) @ nl
           @ tabs 5 @ ''</prosody>'' @ nl
           @ tabs 4 @ ''</voice>'' @ nl
           @ tabs 3 @ ''</speak>''
         else [])"

text \<open>
  The body of the \<open>try\<close>: \<open>Inl\<close> is an exception with the world as it was when it was
  thrown; \<open>Inr\<close> is the normal end, with what the SDK will do with the callbacks if
  \<open>speakSsmlAsync\<close> took them.
\<close>

definition tryBlock :: "sdk \<Rightarrow> config \<Rightarrow> world \<Rightarrow> (string \<times> world) + (world \<times> callbackEvent option)" where
  "tryBlock env cfg w =
     (let audioFile = audioFileOf cfg in
      case fromSubscription env (orEmpty (key cfg)) (orEmpty (region cfg)) of
        Some e \<Rightarrow> Inl (e, w)
      | None \<Rightarrow>
     (case fromSpeakerOutput env of
        Some e \<Rightarrow> Inl (e, w)
      | None \<Rightarrow>
     (case (if cfg_type cfg = Save
            then (case fromAudioFileOutput env audioFile of
                    Some e \<Rightarrow> Inl (e, w)
                  | None \<Rightarrow> Inr (AudioFileOutput audioFile, w))
            else Inr (SpeakerOutput, setAudioConfig SpeakerOutput w)) of
        Inl ew \<Rightarrow> Inl ew
      | Inr (audioCfg, w1) \<Rightarrow>
          (let speechCfg =
                 \<lparr>subscriptionKey = orEmpty (key cfg), serviceRegion = orEmpty (region cfg),
                  speechSynthesisVoiceName = orEmpty (voice cfg),
                  speechSynthesisOutputFormat = audioFormat cfg\<rparr>
           in case newSpeechSynthesizer env speechCfg audioCfg of
                Some e \<Rightarrow> Inl (e, w1)
              | None \<Rightarrow>
                  (let synthesizer = fresh w1;
                       w2 = w1\<lparr>live := synthesizer # live w1, fresh := Suc synthesizer,
                               events := events w1 @ [SynthesizerConstructed synthesizer speechCfg audioCfg]\<rparr>;
                       w3 = setSpeechSynthesizer synthesizer w2;
                       ssmlContent = ssmlContentOf cfg
                   in if ssmlContent = [] then Inr (w3, None)
                      else
                        (let w4 = w3\<lparr>events := events w3 @ [SpeakSsml synthesizer ssmlContent]\<rparr>
                         in case speakSsmlAsync env synthesizer ssmlContent of
                              SpeakThrows e \<Rightarrow> Inl (e, w4)
                            | SpeakStarted ev \<Rightarrow> Inr (w4, ev)))))))"

text \<open>
  \<open>generateVoice\<close> up to the return of the promise's executor: the world, the promise,
  and the callback that the SDK will call, if any.
\<close>

definition generateVoice :: "sdk \<Rightarrow> config \<Rightarrow> world \<Rightarrow> world \<times> promise \<times> callbackEvent option" where
  "generateVoice env cfg w =
     (let w0 = clearAudioConfig (pause w)
      in case tryBlock env cfg w0 of
           Inl (e, w1) \<Rightarrow>
             (synthesizerClear cfg (generateNotice e MsgError w1), reject False Pending, None)
         | Inr (w1, ev) \<Rightarrow> (w1, Pending, ev))"

text \<open>The first callback given to \<open>speakSsmlAsync\<close>.\<close>

definition resultCallback ::
  "(langKey \<Rightarrow> tipMessage) \<Rightarrow> config \<Rightarrow> resultReason \<Rightarrow> world \<times> promise \<Rightarrow> world \<times> promise" where
  "resultCallback LANGS cfg reason wp =
     (let langSettings = LANGS (lang cfg); w = fst wp; p = snd wp
      in if reason = SynthesizingAudioCompleted then
           (let w1 = generateNotice
                       (success_synthesis langSettings @ ''. ''
                        @ (if cfg_type cfg = Save
                           then (success_save langSettings @ '' '') @ audioFileOf cfg
                           else [])) MsgSuccess w
            in (synthesizerClear cfg w1, resolve True p))
         else
           (let w1 = generateNotice (error_synthesis langSettings) MsgError w
            in (synthesizerClear cfg w1, reject False p)))"

text \<open>The second callback given to \<open>speakSsmlAsync\<close>.\<close>

definition errorCallback :: "config \<Rightarrow> string \<Rightarrow> world \<times> promise \<Rightarrow> world \<times> promise" where
  "errorCallback cfg err wp =
     (synthesizerClear cfg (generateNotice err MsgError (fst wp)), reject False (snd wp))"

definition deliver ::
  "(langKey \<Rightarrow> tipMessage) \<Rightarrow> config \<Rightarrow> callbackEvent \<Rightarrow> world \<times> promise \<Rightarrow> world \<times> promise" where
  "deliver LANGS cfg ev wp =
     (case ev of
        OnResult reason \<Rightarrow> resultCallback LANGS cfg reason wp
      | OnError err \<Rightarrow> errorCallback cfg err wp)"

text \<open>
  One request from its call to its end, with nothing else in between: the executor, then
  the SDK's callback if it calls one.
\<close>

definition lifecycle ::
  "sdk \<Rightarrow> (langKey \<Rightarrow> tipMessage) \<Rightarrow> config \<Rightarrow> world \<Rightarrow> world \<times> promise" where
  "lifecycle env LANGS cfg w =
     (case generateVoice env cfg w of
        (w1, p, None) \<Rightarrow> (w1, p)
      | (w1, p, Some ev) \<Rightarrow> deliver LANGS cfg ev (w1, p))"

subsection \<open>The paths of a request\<close>

text \<open>
  The two configurations that the request hands to \<open>new SpeechSynthesizer\<close>: the speech
  configuration made by \<open>fromSubscription\<close> with the voice and the output format set, and
  the audio configuration, which is the file's when the type is \<open>save\<close> and the speaker's
  otherwise.
\<close>

definition speechConfigOf :: "config \<Rightarrow> speechConfig" where
  "speechConfigOf cfg =
     \<lparr>subscriptionKey = orEmpty (key cfg), serviceRegion = orEmpty (region cfg),
      speechSynthesisVoiceName = orEmpty (voice cfg),
      speechSynthesisOutputFormat = audioFormat cfg\<rparr>"

definition audioConfigOf :: "config \<Rightarrow> audioConfig" where
  "audioConfigOf cfg = (if cfg_type cfg = Save then AudioFileOutput (audioFileOf cfg) else SpeakerOutput)"

text \<open>
  The exception thrown during setup, if any, read off the answers of the SDK alone: the
  first call that throws, among the calls that the body of the \<open>try\<close> makes, in its
  order and with its arguments. These are
  \<open>SpeechConfig.fromSubscription\<close>, \<open>AudioConfig.fromSpeakerOutput\<close>,
  \<open>AudioConfig.fromAudioFileOutput\<close> when the type is \<open>save\<close>, \<open>new SpeechSynthesizer\<close>
  and, when there is text to speak, \<open>speakSsmlAsync\<close> on the new handle, which is the next
  handle of the world in which the request starts.
\<close>

definition setupException :: "sdk \<Rightarrow> config \<Rightarrow> world \<Rightarrow> string option" where
  "setupException env cfg w =
     (case fromSubscription env (orEmpty (key cfg)) (orEmpty (region cfg)) of
        Some e \<Rightarrow> Some e
      | None \<Rightarrow>
     (case fromSpeakerOutput env of
        Some e \<Rightarrow> Some e
      | None \<Rightarrow>
     (case (if cfg_type cfg = Save then fromAudioFileOutput env (audioFileOf cfg) else None) of
        Some e \<Rightarrow> Some e
      | None \<Rightarrow>
     (case newSpeechSynthesizer env (speechConfigOf cfg) (audioConfigOf cfg) of
        Some e \<Rightarrow> Some e
      | None \<Rightarrow>
          if ssmlContentOf cfg = [] then None
          else (case speakSsmlAsync env (fresh w) (ssmlContentOf cfg) of
                  SpeakThrows e \<Rightarrow> Some e
                | SpeakStarted ev \<Rightarrow> None)))))"

text \<open>
  The path that a request takes, read off the answers of the SDK in the same way: an
  exception during setup; the first callback called with a reason; the second callback
  called with an error; or no callback at all (none was given to the SDK, since there is
  no text to speak, or the SDK never calls one).
\<close>

datatype path = SetupException string | Completion resultReason | Failure string | NoSettlement

definition pathOf :: "sdk \<Rightarrow> config \<Rightarrow> world \<Rightarrow> path" where
  "pathOf env cfg w =
     (case setupException env cfg w of
        Some e \<Rightarrow> SetupException e
      | None \<Rightarrow>
          if ssmlContentOf cfg = [] then NoSettlement
          else (case speakSsmlAsync env (fresh w) (ssmlContentOf cfg) of
                  SpeakStarted (Some (OnResult reason)) \<Rightarrow> Completion reason
                | SpeakStarted (Some (OnError err)) \<Rightarrow> Failure err
                | _ \<Rightarrow> NoSettlement))"

text \<open>The events logged between the world \<open>w\<close> and the later world \<open>w'\<close>.\<close>

definition eventsSince :: "world \<Rightarrow> world \<Rightarrow> event list" where
  "eventsSince w w' = drop (length (events w)) (events w')"

text \<open>The events that are a synthesis call, and those that release a synthesizer.\<close>

fun isSpeakCall :: "event \<Rightarrow> bool" where
  "isSpeakCall (SpeakSsml h ssml) = True"
| "isSpeakCall ev = False"

fun isRelease :: "event \<Rightarrow> bool" where
  "isRelease (SynthesizerClosed h) = True"
| "isRelease SynthesizerCleared = True"
| "isRelease ev = False"

text \<open>
  The live handles as the log tells them: a constructed synthesizer is live until it is
  closed. \<open>boundedLive l evs\<close> says that, starting with the live handles \<open>l\<close>, at most one
  handle is live before the first event of \<open>evs\<close>, between any two of them, and after
  the last.
\<close>

fun replay :: "event \<Rightarrow> nat list \<Rightarrow> nat list" where
  "replay (SynthesizerConstructed h sc ac) l = h # l"
| "replay (SynthesizerClosed h) l = removeAll h l"
| "replay ev l = l"

fun replayAll :: "nat list \<Rightarrow> event list \<Rightarrow> nat list" where
  "replayAll l [] = l"
| "replayAll l (ev # evs) = replayAll (replay ev l) evs"

fun boundedLive :: "nat list \<Rightarrow> event list \<Rightarrow> bool" where
  "boundedLive l [] = (length l \<le> 1)"
| "boundedLive l (ev # evs) = (length l \<le> 1 \<and> boundedLive (replay ev l) evs)"

text \<open>
  The store holds the live handle and no other handle is live: the spec's "Active
  Synthesizer Handle (shared, at most one live instance at a time, held in process-wide
  state)".
\<close>

definition singleFlight :: "world \<Rightarrow> bool" where
  "singleFlight w = (live w = (case store_synthesizer w of None \<Rightarrow> [] | Some h \<Rightarrow> [h]))"

subsection \<open>Requests one after the other\<close>

text \<open>
  What happens in the process, one thing at a time, as the spec has it ("Single-threaded,
  cooperative, callback/promise-driven"): \<open>generateVoice\<close> is called and runs up to the
  return of the executor, or the SDK calls one of the two callbacks of a request. A run
  is any sequence of these, so that a request may start before, between or after the
  callbacks of the requests before it.
\<close>

datatype step = Invoke sdk config | Callback config callbackEvent

fun advance :: "(langKey \<Rightarrow> tipMessage) \<Rightarrow> step \<Rightarrow> world \<Rightarrow> world" where
  "advance LANGS (Invoke env cfg) w = fst (generateVoice env cfg w)"
| "advance LANGS (Callback cfg ev) w = fst (deliver LANGS cfg ev (w, Pending))"

fun run :: "(langKey \<Rightarrow> tipMessage) \<Rightarrow> step list \<Rightarrow> world \<Rightarrow> world" where
  "run LANGS [] w = w"
| "run LANGS (s # steps) w = run LANGS steps (advance LANGS s w)"

subsection \<open>A concrete setting\<close>

text \<open>
  The world at the start of the process; an SDK whose \<open>fromSubscription\<close> refuses an
  empty key or region, as the speech SDK's does, and whose \<open>speakSsmlAsync\<close> has the
  given outcome; the request of the spec's scenario (save \<open>note1\<close> under \<open>/out\<close> as
  \<open>mp3\<close>); and messages for both languages.
\<close>

definition initialWorld :: world where
  "initialWorld =
     \<lparr>store_synthesizer = None, store_audioConfig = None, store_playing = False,
      live = [], fresh = 0, events = []\<rparr>"

definition sdkWith :: "speakOutcome \<Rightarrow> sdk" where
  "sdkWith outcome =
     \<lparr>fromSubscription =
        (\<lambda>k r. if k = [] then Some ''Error: throwIfNullOrWhitespace:subscriptionKey''
               else if r = [] then Some ''Error: throwIfNullOrWhitespace:region''
               else None),
      fromSpeakerOutput = None,
      fromAudioFileOutput = (\<lambda>f. None),
      newSpeechSynthesizer = (\<lambda>sc ac. None),
      speakSsmlAsync = (\<lambda>h ssml. outcome)\<rparr>"

definition noteConfig :: config where
  "noteConfig =
     \<lparr>filename = Some ''note1'', cfg_text = Some ''Hello'', key = Some ''secret'',
      region = Some ''eastus'', filePath = Some ''/out'', voice = Some ''en-US-JennyNeural'',
      cfg_type = Save, lang = En, callback = Some 7,
      audioFormat = Some ''audio-24khz-48kbitrate-mono-mp3'', audioFormatType = Some ''mp3'',
      speed = ''1'', regionCode = Some ''en-US''\<rparr>"

definition tips :: "langKey \<Rightarrow> tipMessage" where
  "tips l =
     \<lparr>success_synthesis = ''Synthesis succeeded'', success_save = ''Saved to'',
      error_synthesis = ''Synthesis failed''\<rparr>"

text \<open>
  An SDK that would complete the synthesis, but whose \<open>new SpeechSynthesizer\<close> throws the
  given exception.
\<close>

definition sdkFailing :: "string \<Rightarrow> sdk" where
  "sdkFailing e =
     (sdkWith (SpeakStarted (Some (OnResult SynthesizingAudioCompleted))))
       \<lparr>newSpeechSynthesizer := (\<lambda>sc ac. Some e)\<rparr>"

text \<open>
  An editor on the two lines \<open>Hello world\<close> and \<open>second line\<close>, the cursor behind
  \<open>Hello\<close> and its space, nothing selected.
\<close>

definition sampleEditor :: editor where
  "sampleEditor =
     \<lparr>getSelection = [],
      getCursor = \<lparr>line = 0, ch = 6\<rparr>,
      lastLine = 1,
      getLine = (\<lambda>n. if n = 0 then ''Hello world'' else ''second line''),
      wordAt = (\<lambda>p. if p = \<lparr>line = 1, ch = 11\<rparr>
                    then Some \<lparr>range_from = \<lparr>line = 1, ch = 7\<rparr>, range_to = \<lparr>line = 1, ch = 11\<rparr>\<rparr>
                    else None),
      getRange = (\<lambda>f t. if f = \<lparr>line = 0, ch = 0\<rparr> \<and> t = \<lparr>line = 0, ch = 6\<rparr> then ''Hello ''
                       else if f = \<lparr>line = 0, ch = 6\<rparr> \<and> t = \<lparr>line = 1, ch = 11\<rparr>
                       then ''world'' @ [CHR 0x0A] @ ''second line''
                       else [])\<rparr>"

section \<open>Facts about the matcher\<close>

text \<open>
  The greedy \<open>.*\<close> followed by a character \<open>c\<close> that is no line terminator: on a
  line it matches up to the last \<open>c\<close> of the line, and not at all when the line has no
  \<open>c\<close>.
\<close>

lemma canonicalize_False [simp]: "canonicalize False c = c"
  by (simp add: canonicalize_def)

lemma dotStar_Nil: "rmatch i (Star Dot) (p, [], caps) = [(p, [], caps)]"
  by simp

lemma dotStar_Cons:
  "rmatch i (Star Dot) (p, x # xs, caps) =
     (if isLineTerminator x then [(p, x # xs, caps)]
      else rmatch i (Star Dot) (Suc p, xs, caps) @ [(p, x # xs, caps)])"
  by simp

lemma dotThen_Nil: "rmatch False (Seq (Star Dot) (Char c)) (p, [], caps) = []"
  by simp

lemma dotThen_Cons:
  assumes "\<not> isLineTerminator c"
  shows "rmatch False (Seq (Star Dot) (Char c)) (p, x # xs, caps) =
     (if isLineTerminator x then []
      else rmatch False (Seq (Star Dot) (Char c)) (Suc p, xs, caps)
           @ (if x = c then [(Suc p, xs, caps)] else []))"
  using assms by auto

declare rmatch.simps [simp del]

lemma dotThen_none:
  assumes "\<not> isLineTerminator c"
  shows "c \<notin> set (takeWhile (\<lambda>x. \<not> isLineTerminator x) s)
     \<Longrightarrow> rmatch False (Seq (Star Dot) (Char c)) (p, s, caps) = []"
proof (induction s arbitrary: p)
  case Nil
  show ?case by (rule dotThen_Nil)
next
  case (Cons x xs)
  then show ?case
    by (simp only: dotThen_Cons [OF assms]) (auto split: if_splits)
qed

lemma dotThen_hd:
  assumes "\<not> isLineTerminator c"
  shows "\<forall>x\<in>set q. \<not> isLineTerminator x
     \<Longrightarrow> c \<notin> set (takeWhile (\<lambda>x. \<not> isLineTerminator x) t)
     \<Longrightarrow> \<exists>rest. rmatch False (Seq (Star Dot) (Char c)) (p, q @ c # t, caps)
                = (p + length q + 1, t, caps) # rest"
proof (induction q arbitrary: p)
  case Nil
  then show ?case
    using dotThen_none [OF assms, of t "Suc p" caps] assms
    by (simp only: append_Nil dotThen_Cons [OF assms]) simp
next
  case (Cons x q)
  then obtain rest where
    "rmatch False (Seq (Star Dot) (Char c)) (Suc p, q @ c # t, caps) = (Suc p + length q + 1, t, caps) # rest"
    by fastforce
  with Cons.prems show ?case
    by (simp only: append_Cons dotThen_Cons [OF assms]) simp
qed

text \<open>
  The global replacement copies a stretch in which no match starts and replaces a match
  by its substitution.
\<close>

lemma replaceFrom_skip:
  "(\<And>k. k < length a \<Longrightarrow> matchAt i r (p + k) (drop k a @ rest) = None)
   \<Longrightarrow> replaceFrom i r tpl p (a @ rest) = a @ replaceFrom i r tpl (p + length a) rest"
proof (induction a arbitrary: p)
  case Nil
  show ?case by simp
next
  case (Cons x a)
  have "matchAt i r p ((x # a) @ rest) = None"
    using Cons.prems [of 0] by simp
  moreover have "replaceFrom i r tpl (Suc p) (a @ rest) = a @ replaceFrom i r tpl (Suc p + length a) rest"
  proof (rule Cons.IH)
    fix k assume "k < length a"
    then show "matchAt i r (Suc p + k) (drop k a @ rest) = None"
      using Cons.prems [of "Suc k"] by simp
  qed
  ultimately show ?case by simp
qed

lemma replaceFrom_hit:
  assumes "matchAt i r p (a @ rest) = Some (length a, caps)" and "a \<noteq> []"
  shows "replaceFrom i r tpl p (a @ rest)
         = getSubstitution a (groupsOf r) caps tpl @ replaceFrom i r tpl (p + length a) rest"
proof -
  obtain x xs where a: "a = x # xs" using assms(2) by (cases a) auto
  have "drop (length xs) (xs @ rest) = rest" by simp
  with assms(1) show ?thesis unfolding a by simp
qed

lemma replaceFrom_end:
  "matchAt i r p [] = None \<Longrightarrow> replaceFrom i r tpl p [] = []"
  by simp

text \<open>The literal of \<open>getAudioFormatType\<close>, line by line.\<close>

lemma matchAt_formatPrefix_none:
  "CHR ''-'' \<notin> set (takeWhile (\<lambda>x. \<not> isLineTerminator x) s) \<Longrightarrow> matchAt False formatPrefix_re p s = None"
  by (simp add: matchAt_def formatPrefix_re_def rmatch.simps(7) dotThen_none isLineTerminator_def)

lemma matchAt_formatPrefix_some:
  assumes "\<forall>x\<in>set q. \<not> isLineTerminator x" and "CHR ''-'' \<notin> set (takeWhile (\<lambda>x. \<not> isLineTerminator x) t)"
  shows "\<exists>caps. matchAt False formatPrefix_re p (q @ CHR ''-'' # t) = Some (length q + 1, caps)"
proof -
  have "\<not> isLineTerminator CHR ''-''" by (simp add: isLineTerminator_def)
  from dotThen_hd [OF this assms, of p "[]"] obtain rest where
    "rmatch False (Seq (Star Dot) (Char CHR ''-'')) (p, q @ CHR ''-'' # t, []) = (p + length q + 1, t, []) # rest"
    by blast
  then show ?thesis
    by (simp add: matchAt_def formatPrefix_re_def rmatch.simps(7))
qed

lemma formatPrefix_line_plain:
  assumes "\<forall>x\<in>set a. \<not> isLineTerminator x" and "takeWhile (\<lambda>x. \<not> isLineTerminator x) rest = []" and "CHR ''-'' \<notin> set a"
  shows "replaceFrom False formatPrefix_re [] p (a @ rest)
         = a @ replaceFrom False formatPrefix_re [] (p + length a) rest"
proof (rule replaceFrom_skip)
  fix k assume "k < length a"
  have "\<forall>x\<in>set (drop k a). \<not> isLineTerminator x" using assms(1) by (meson in_set_dropD)
  then have "takeWhile (\<lambda>x. \<not> isLineTerminator x) (drop k a @ rest) = drop k a"
    using assms(2) by (simp add: takeWhile_append2)
  moreover have "CHR ''-'' \<notin> set (drop k a)" using assms(3) by (meson in_set_dropD)
  ultimately show "matchAt False formatPrefix_re (p + k) (drop k a @ rest) = None"
    by (simp add: matchAt_formatPrefix_none)
qed

lemma afterLast_none: "c \<notin> set t \<Longrightarrow> rev (takeWhile (\<lambda>x. x \<noteq> c) (rev t)) = t"
proof -
  assume "c \<notin> set t"
  then have "takeWhile (\<lambda>x. x \<noteq> c) (rev t) = rev t"
    by (intro takeWhile_eq_all_conv [THEN iffD2]) auto
  then show ?thesis by (simp only: rev_rev_ident)
qed

lemma formatPrefix_line:
  assumes "\<forall>x\<in>set a. \<not> isLineTerminator x" and "takeWhile (\<lambda>x. \<not> isLineTerminator x) rest = []"
  shows "replaceFrom False formatPrefix_re [] p (a @ rest)
         = rev (takeWhile (\<lambda>c. c \<noteq> CHR ''-'') (rev a))
           @ replaceFrom False formatPrefix_re [] (p + length a) rest"
proof (cases "CHR ''-'' \<in> set a")
  case False
  then have tw: "rev (takeWhile (\<lambda>c. c \<noteq> CHR ''-'') (rev a)) = a" by (rule afterLast_none)
  show ?thesis unfolding tw by (rule formatPrefix_line_plain [OF assms False])
next
  case True
  then obtain q t where a: "a = q @ CHR ''-'' # t" and t: "CHR ''-'' \<notin> set t"
    by (meson split_list_last)
  have qn: "\<forall>x\<in>set q. \<not> isLineTerminator x" and tn: "\<forall>x\<in>set t. \<not> isLineTerminator x" using assms(1) a by auto
  have "takeWhile (\<lambda>x. \<not> isLineTerminator x) (t @ rest) = t" using tn assms(2) by (simp add: takeWhile_append2)
  with t have "CHR ''-'' \<notin> set (takeWhile (\<lambda>x. \<not> isLineTerminator x) (t @ rest))" by simp
  from matchAt_formatPrefix_some [OF qn this, of p] obtain caps where
    m: "matchAt False formatPrefix_re p ((q @ [CHR ''-'']) @ (t @ rest)) = Some (length (q @ [CHR ''-'']), caps)"
    by auto
  have "replaceFrom False formatPrefix_re [] p ((q @ [CHR ''-'']) @ (t @ rest))
        = getSubstitution (q @ [CHR ''-'']) (groupsOf formatPrefix_re) caps [] @ replaceFrom False formatPrefix_re [] (p + length (q @ [CHR ''-''])) (t @ rest)"
    by (rule replaceFrom_hit [OF m]) simp
  also have "\<dots> = replaceFrom False formatPrefix_re [] (p + length q + 1) (t @ rest)" by simp
  also have "\<dots> = t @ replaceFrom False formatPrefix_re [] (p + length q + 1 + length t) rest"
    by (rule formatPrefix_line_plain [OF tn assms(2) t])
  finally have "replaceFrom False formatPrefix_re [] p (a @ rest)
        = t @ replaceFrom False formatPrefix_re [] (p + length a) rest"
    by (simp add: a add.assoc)
  moreover have "rev (takeWhile (\<lambda>c. c \<noteq> CHR ''-'') (rev a)) = t"
    using afterLast_none [OF t] by (simp add: a takeWhile_tail)
  ultimately show ?thesis by simp
qed

text \<open>
  All the states of \<open>.*\<close>, longest first; with them, the literal of
  \<open>handleTextFormat\<close> on a rule with and without a closing slash on its first line.
\<close>

lemma rev_upt_Suc: "rev [0..<Suc m] = map Suc (rev [0..<m]) @ [0]"
proof -
  have "[0..<Suc m] = 0 # [Suc 0..<Suc m]" by (rule upt_conv_Cons) simp
  also have "[Suc 0..<Suc m] = map Suc [0..<m]" by (rule map_Suc_upt [symmetric])
  finally show ?thesis by (simp only: rev.simps rev_map)
qed

lemma starDot_all:
  "rmatch i (Star Dot) (p, s, caps)
   = map (\<lambda>k. (p + k, drop k s, caps)) (rev [0..<Suc (length (takeWhile (\<lambda>x. \<not> isLineTerminator x) s))])"
proof (induction s arbitrary: p)
  case Nil
  show ?case by (simp add: dotStar_Nil)
next
  case (Cons x xs)
  show ?case
  proof (cases "isLineTerminator x")
    case True
    then show ?thesis by (simp add: dotStar_Cons)
  next
    case False
    let ?n = "length (takeWhile (\<lambda>x. \<not> isLineTerminator x) xs)"
    have "rmatch i (Star Dot) (p, x # xs, caps)
          = map (\<lambda>k. (Suc p + k, drop k xs, caps)) (rev [0..<Suc ?n]) @ [(p, x # xs, caps)]"
      using False by (simp only: dotStar_Cons Cons [of "Suc p"] if_False)
    also have "\<dots> = map (\<lambda>k. (p + k, drop k (x # xs), caps)) (map Suc (rev [0..<Suc ?n]) @ [0])"
      by (simp add: comp_def del: upt_Suc)
    also have "\<dots> = map (\<lambda>k. (p + k, drop k (x # xs), caps)) (rev [0..<Suc (Suc ?n)])"
      by (simp only: rev_upt_Suc [of "Suc ?n"])
    finally show ?thesis using False by (simp del: upt_Suc)
  qed
qed

lemma concat_map_skip:
  "(\<And>a. a \<in> set A \<Longrightarrow> f a = []) \<Longrightarrow> concat (map f (A @ B)) = concat (map f B)"
  by (induction A) auto

lemma slashTail_none:
  "(s = [] \<or> hd s \<noteq> CHR ''/'') \<Longrightarrow> rmatch False (Seq (Char CHR ''/'') (Star Dot)) (p, s, caps) = []"
  by (cases s) (auto simp: rmatch.simps(2,5))

lemma slashTail_hd:
  "\<forall>x\<in>set fl. \<not> isLineTerminator x \<Longrightarrow>
   \<exists>rest. rmatch False (Seq (Char CHR ''/'') (Star Dot)) (p, CHR ''/'' # fl, caps)
           = (Suc p + length fl, [], caps) # rest"
proof -
  assume fl: "\<forall>x\<in>set fl. \<not> isLineTerminator x"
  then have tw: "takeWhile (\<lambda>x. \<not> isLineTerminator x) fl = fl" by simp
  have "rev [0..<Suc (length fl)] = length fl # rev [0..<length fl]" by simp
  then show ?thesis
    by (simp add: rmatch.simps(2,5) starDot_all tw del: upt_Suc)
qed

lemma rulePattern_unfold:
  "rmatch False rulePattern_re (0, CHR ''/'' # s, [])
   = concat (map (\<lambda>k. rmatch False (Seq (Char CHR ''/'') (Star Dot)) (Suc k, drop k s, [(1, take k s)]))
               (rev [0..<Suc (length (takeWhile (\<lambda>x. \<not> isLineTerminator x) s))]))"
  by (simp add: rulePattern_re_def rmatch.simps(2,5,7,8) starDot_all comp_def del: upt_Suc)

lemma matchAt_rulePattern_pos: "0 < p \<Longrightarrow> matchAt False rulePattern_re p s = None"
  by (simp add: matchAt_def rulePattern_re_def rmatch.simps(5,8))

lemma matchAt_rulePattern_noslash:
  "(s = [] \<or> hd s \<noteq> CHR ''/'') \<Longrightarrow> matchAt False rulePattern_re p s = None"
  by (cases s) (auto simp: matchAt_def rulePattern_re_def rmatch.simps(2,5,8))

lemma matchAt_rulePattern_unclosed:
  assumes "CHR ''/'' \<notin> set (takeWhile (\<lambda>x. \<not> isLineTerminator x) s)"
  shows "matchAt False rulePattern_re 0 (CHR ''/'' # s) = None"
proof -
  let ?n = "length (takeWhile (\<lambda>x. \<not> isLineTerminator x) s)"
  have "rmatch False (Seq (Char CHR ''/'') (Star Dot)) (Suc k, drop k s, [(1, take k s)]) = []"
    if "k \<in> set (rev [0..<Suc ?n])" for k
  proof (rule slashTail_none)
    from that have k: "k \<le> ?n" by auto
    show "drop k s = [] \<or> hd (drop k s) \<noteq> CHR ''/''"
    proof (cases "k < ?n")
      case True
      then have "takeWhile (\<lambda>x. \<not> isLineTerminator x) s ! k = s ! k" by (rule takeWhile_nth)
      moreover have "takeWhile (\<lambda>x. \<not> isLineTerminator x) s ! k \<in> set (takeWhile (\<lambda>x. \<not> isLineTerminator x) s)"
        using True by simp
      moreover have "k < length s" using True length_takeWhile_le [of "\<lambda>x. \<not> isLineTerminator x" s] by linarith
      ultimately show ?thesis using assms by (auto simp: hd_drop_conv_nth)
    next
      case False
      with k have kn: "k = ?n" by simp
      have "drop ?n s = dropWhile (\<lambda>x. \<not> isLineTerminator x) s"
        by (simp add: dropWhile_eq_drop)
      moreover have "dropWhile (\<lambda>x. \<not> isLineTerminator x) s = [] \<or> isLineTerminator (hd (dropWhile (\<lambda>x. \<not> isLineTerminator x) s))"
        using hd_dropWhile [of "\<lambda>x. \<not> isLineTerminator x" s] by auto
      ultimately show ?thesis unfolding kn by (auto simp: isLineTerminator_def)
    qed
  qed
  then have "rmatch False rulePattern_re (0, CHR ''/'' # s, []) = []"
    unfolding rulePattern_unfold by (simp del: upt_Suc)
  then show ?thesis by (simp add: matchAt_def)
qed

lemma matchAt_rulePattern_closed:
  assumes "\<forall>x\<in>set pat. \<not> isLineTerminator x"
    and "\<forall>x\<in>set fl. \<not> isLineTerminator x" and "CHR ''/'' \<notin> set fl"
  shows "matchAt False rulePattern_re 0 (CHR ''/'' # pat @ CHR ''/'' # fl)
         = Some (length pat + length fl + 2, [(1, pat)])"
proof -
  let ?s = "pat @ CHR ''/'' # fl"
  let ?f = "\<lambda>k. rmatch False (Seq (Char CHR ''/'') (Star Dot)) (Suc k, drop k ?s, [(1, take k ?s)])"
  have "\<forall>x\<in>set ?s. \<not> isLineTerminator x" using assms by (auto simp: isLineTerminator_def)
  then have tw: "takeWhile (\<lambda>x. \<not> isLineTerminator x) ?s = ?s" by simp
  have len: "length ?s = length pat + Suc (length fl)" by simp
  have "[0..<Suc (length ?s)] = [0..<length pat] @ length pat # [Suc (length pat)..<Suc (length ?s)]"
    unfolding len by (metis add_Suc_right le_add1 less_Suc_eq_le upt_add_eq_append upt_conv_Cons zero_le)
  then have split: "rev [0..<Suc (length ?s)]
      = rev [Suc (length pat)..<Suc (length ?s)] @ length pat # rev [0..<length pat]"
    by simp
  have none: "?f k = []" if "k \<in> set (rev [Suc (length pat)..<Suc (length ?s)])" for k
  proof (rule slashTail_none)
    from that have k: "length pat < k" by auto
    then obtain j where "k = length pat + Suc j" using less_imp_Suc_add by auto
    then have "drop k ?s = drop j fl" by simp
    moreover have "drop j fl = [] \<or> hd (drop j fl) \<in> set fl"
      by (metis hd_in_set in_set_dropD)
    ultimately show "drop k ?s = [] \<or> hd (drop k ?s) \<noteq> CHR ''/''" using assms(3) by auto
  qed
  obtain rest where "?f (length pat) = (Suc (Suc (length pat)) + length fl, [], [(1, pat)]) # rest"
    using slashTail_hd [OF assms(2), of "Suc (length pat)" "[(1, pat)]"] by auto
  moreover have "concat (map ?f (rev [0..<Suc (length ?s)]))
      = ?f (length pat) @ concat (map ?f (rev [0..<length pat]))"
  proof -
    have "concat (map ?f (rev [Suc (length pat)..<Suc (length ?s)] @ length pat # rev [0..<length pat]))
          = concat (map ?f (length pat # rev [0..<length pat]))"
      by (rule concat_map_skip) (rule none)
    then show ?thesis by (simp only: split list.map concat.simps)
  qed
  ultimately have "\<exists>rest'. concat (map ?f (rev [0..<Suc (length ?s)]))
      = (Suc (Suc (length pat)) + length fl, [], [(1, pat)]) # rest'"
    by (simp only: append_Cons) blast
  then obtain rest' where "rmatch False rulePattern_re (0, CHR ''/'' # ?s, [])
      = (Suc (Suc (length pat)) + length fl, [], [(1, pat)]) # rest'"
    unfolding rulePattern_unfold tw by blast
  then show ?thesis
    by (simp add: matchAt_def)
qed

subsection \<open>The audio container type\<close>

lemma formatPrefix_single_line:
  assumes "\<forall>x\<in>set s. \<not> isLineTerminator x"
  shows "replaceAll_regex False formatPrefix_re [] s = rev (takeWhile (\<lambda>c. c \<noteq> CHR ''-'') (rev s))"
proof -
  have "matchAt False formatPrefix_re (0 + length s) [] = None"
    by (rule matchAt_formatPrefix_none) simp
  then have "replaceFrom False formatPrefix_re [] (0 + length s) [] = []"
    by (rule replaceFrom_end)
  with formatPrefix_line [OF assms, of "[]" 0] show ?thesis
    by (simp add: replaceAll_regex_def)
qed

lemma formatPrefix_keeps_LT:
  assumes "\<exists>x\<in>set s. isLineTerminator x"
  shows "\<exists>x\<in>set (replaceAll_regex False formatPrefix_re [] s). isLineTerminator x"
proof -
  from assms obtain a l b where s: "s = a @ l # b" and a: "\<forall>x\<in>set a. \<not> isLineTerminator x" and l: "isLineTerminator l"
    by (metis split_list_first_prop)
  have tw: "takeWhile (\<lambda>x. \<not> isLineTerminator x) (l # b) = []" using l by simp
  have "matchAt False formatPrefix_re (0 + length a) (l # b) = None"
    by (rule matchAt_formatPrefix_none) (simp add: l)
  then have "replaceFrom False formatPrefix_re [] (0 + length a) (l # b)
             = l # replaceFrom False formatPrefix_re [] (Suc (0 + length a)) b"
    by simp
  with formatPrefix_line [OF a tw, of 0] have "l \<in> set (replaceAll_regex False formatPrefix_re [] s)"
    by (simp add: replaceAll_regex_def s)
  with l show ?thesis by blast
qed

lemma toLowerCase_char_hyphen: "toLowerCase_char c = CHR ''-'' \<longleftrightarrow> c = CHR ''-''"
proof
  assume h: "toLowerCase_char c = CHR ''-''"
  show "c = CHR ''-''"
  proof (rule ccontr)
    assume n: "c \<noteq> CHR ''-''"
    with h have up: "(65 \<le> (of_char c :: nat) \<and> (of_char c :: nat) \<le> 90) \<or> (192 \<le> (of_char c :: nat) \<and> (of_char c :: nat) \<le> 222 \<and> (of_char c :: nat) \<noteq> 215)"
      and eq: "char_of ((of_char c :: nat) + 32) = CHR ''-''"
      by (auto simp: toLowerCase_char_def Let_def split: if_splits)
    from eq have "(of_char (char_of ((of_char c :: nat) + 32) :: char) :: nat) = of_char CHR ''-''"
      by simp
    then have m: "((of_char c :: nat) + 32) mod 256 = 45" by simp
    from up have "(of_char c :: nat) + 32 < 256" by linarith
    then have "((of_char c :: nat) + 32) mod 256 = of_char c + 32" by (rule mod_less)
    with m have "(of_char c :: nat) + 32 = 45" by (simp only:)
    with up show False by linarith
  qed
next
  assume "c = CHR ''-''"
  then show "toLowerCase_char c = CHR ''-''" by (simp add: toLowerCase_char_def)
qed

lemma toLowerCase_char_LT: "isLineTerminator c \<Longrightarrow> toLowerCase_char c = c"
  by (auto simp: isLineTerminator_def toLowerCase_char_def)

lemma toLowerCase_afterLast:
  "toLowerCase (rev (takeWhile (\<lambda>c. c \<noteq> CHR ''-'') (rev s)))
   = rev (takeWhile (\<lambda>c. c \<noteq> CHR ''-'') (rev (toLowerCase s)))"
  by (simp add: toLowerCase_def rev_map takeWhile_map comp_def toLowerCase_char_hyphen)

lemma afterLast_mp3:
  "rev (takeWhile (\<lambda>c. c \<noteq> CHR ''-'') (rev u)) = ''mp3''
   \<longleftrightarrow> u = ''mp3'' \<or> (\<exists>p. u = p @ ''-mp3'')"
proof
  assume h: "rev (takeWhile (\<lambda>c. c \<noteq> CHR ''-'') (rev u)) = ''mp3''"
  have "rev u = takeWhile (\<lambda>c. c \<noteq> CHR ''-'') (rev u) @ dropWhile (\<lambda>c. c \<noteq> CHR ''-'') (rev u)"
    by simp
  then have u: "u = rev (dropWhile (\<lambda>c. c \<noteq> CHR ''-'') (rev u)) @ ''mp3''"
    using h by (metis rev_append rev_rev_ident)
  show "u = ''mp3'' \<or> (\<exists>p. u = p @ ''-mp3'')"
  proof (cases "dropWhile (\<lambda>c. c \<noteq> CHR ''-'') (rev u)")
    case Nil
    with u show ?thesis by simp
  next
    case (Cons y ys)
    then have "y = CHR ''-''" using hd_dropWhile [of "\<lambda>c. c \<noteq> CHR ''-''" "rev u"] by simp
    with u Cons have "u = rev ys @ ''-mp3''" by simp
    then show ?thesis by blast
  qed
next
  assume "u = ''mp3'' \<or> (\<exists>p. u = p @ ''-mp3'')"
  then show "rev (takeWhile (\<lambda>c. c \<noteq> CHR ''-'') (rev u)) = ''mp3''"
    by auto
qed

lemma getAudioFormatType_mp3_iff:
  "getAudioFormatType s = ''mp3''
   \<longleftrightarrow> (\<forall>c\<in>set s. \<not> isLineTerminator c)
       \<and> (toLowerCase s = ''mp3'' \<or> (\<exists>p. toLowerCase s = p @ ''-mp3''))"
proof (cases "\<forall>c\<in>set s. \<not> isLineTerminator c")
  case True
  have eq: "toLowerCase (replaceAll_regex False formatPrefix_re [] s) = ''mp3''
            \<longleftrightarrow> toLowerCase s = ''mp3'' \<or> (\<exists>p. toLowerCase s = p @ ''-mp3'')"
    by (simp only: formatPrefix_single_line [OF True] toLowerCase_afterLast afterLast_mp3)
  show ?thesis
    using True by (simp add: getAudioFormatType_def eq)
next
  case False
  then obtain l where l: "l \<in> set (replaceAll_regex False formatPrefix_re [] s)" "isLineTerminator l"
    using formatPrefix_keeps_LT [of s] by blast
  then have "toLowerCase_char l \<in> set (toLowerCase (replaceAll_regex False formatPrefix_re [] s))"
    by (simp add: toLowerCase_def)
  then have "l \<in> set (toLowerCase (replaceAll_regex False formatPrefix_re [] s))"
    using l(2) by (simp add: toLowerCase_char_LT)
  then have "toLowerCase (replaceAll_regex False formatPrefix_re [] s) \<noteq> ''mp3''"
    using l(2) by (auto simp: isLineTerminator_def)
  with False show ?thesis by (simp add: getAudioFormatType_def)
qed

text \<open>
  C6, as stated, fails: the string \<open>mp3\<close> does not end in \<open>-mp3\<close> and is classified
  \<open>mp3\<close> (nothing is removed from a string without a hyphen), and a string that ends in
  \<open>-mp3\<close> behind a line terminator is classified \<open>wav\<close> (the dot of the literal does not
  cross a line terminator, which therefore stays in the string compared with \<open>mp3\<close>).
\<close>

theorem getAudioFormatType_suffix_counterexample:
  "getAudioFormatType ''mp3'' = ''mp3''
   \<and> \<not> (\<exists>p. toLowerCase ''mp3'' = p @ ''-mp3'')
   \<and> getAudioFormatType (''x'' @ [CHR 0x0A] @ ''-mp3'') = ''wav''
   \<and> toLowerCase (''x'' @ [CHR 0x0A] @ ''-mp3'') = (''x'' @ [CHR 0x0A]) @ ''-mp3''"
proof -
  have "getAudioFormatType ''mp3'' = ''mp3''" by code_simp
  moreover have "toLowerCase ''mp3'' = ''mp3''" by code_simp
  then have "\<not> (\<exists>p. toLowerCase ''mp3'' = p @ ''-mp3'')"
    by (auto dest: arg_cong [where f = length])
  moreover have "getAudioFormatType (''x'' @ [CHR 0x0A] @ ''-mp3'') = ''wav''" by code_simp
  moreover have "toLowerCase (''x'' @ [CHR 0x0A] @ ''-mp3'') = (''x'' @ [CHR 0x0A]) @ ''-mp3''" by code_simp
  ultimately show ?thesis by blast
qed

text \<open>
  C6, amended: \<open>getAudioFormatType\<close> returns \<open>mp3\<close> exactly when the string contains no
  line terminator and, compared without regard to case, is \<open>mp3\<close> itself or ends in
  \<open>-mp3\<close>; it returns \<open>wav\<close> for every other string.
\<close>

theorem getAudioFormatType_classifies:
  "getAudioFormatType s =
     (if (\<forall>c\<in>set s. \<not> isLineTerminator c)
         \<and> (toLowerCase s = ''mp3'' \<or> (\<exists>p. toLowerCase s = p @ ''-mp3''))
      then ''mp3'' else ''wav'')"
proof (cases "getAudioFormatType s = ''mp3''")
  case True
  then show ?thesis using getAudioFormatType_mp3_iff [of s] by simp
next
  case False
  moreover from False have "getAudioFormatType s = ''wav''"
    by (simp add: getAudioFormatType_def split: if_splits)
  ultimately show ?thesis using getAudioFormatType_mp3_iff [of s] by auto
qed

theorem getAudioFormatType_classifies_witness:
  "getAudioFormatType ''audio-24khz-48kbitrate-mono-MP3'' = ''mp3''
   \<and> getAudioFormatType ''riff-24khz-16bit-mono-pcm'' = ''wav''"
proof -
  let ?a = "''audio-24khz-48kbitrate-mono-MP3''" and ?b = "''riff-24khz-16bit-mono-pcm''"
  have "toLowerCase ?a = ''audio-24khz-48kbitrate-mono'' @ ''-mp3''" by code_simp
  moreover have "\<forall>c\<in>set ?a. \<not> isLineTerminator c" by (simp add: isLineTerminator_def)
  ultimately have ca: "(\<forall>c\<in>set ?a. \<not> isLineTerminator c)
      \<and> (toLowerCase ?a = ''mp3'' \<or> (\<exists>p. toLowerCase ?a = p @ ''-mp3''))"
    by blast
  have lb: "toLowerCase ?b = ?b" by code_simp
  have "\<not> (\<exists>p. ?b = p @ ''-mp3'')"
  proof
    assume "\<exists>p. ?b = p @ ''-mp3''"
    then obtain p where "?b = p @ ''-mp3''" ..
    then have "last ?b = last (p @ ''-mp3'')" by (rule arg_cong)
    then show False by simp
  qed
  then have cb: "\<not> ((\<forall>c\<in>set ?b. \<not> isLineTerminator c)
      \<and> (toLowerCase ?b = ''mp3'' \<or> (\<exists>p. toLowerCase ?b = p @ ''-mp3'')))"
    unfolding lb by simp
  have "getAudioFormatType ?a = ''mp3''"
    unfolding getAudioFormatType_classifies [of ?a] using ca by (rule if_P)
  moreover have "getAudioFormatType ?b = ''wav''"
    unfolding getAudioFormatType_classifies [of ?b] using cb by (rule if_not_P)
  ultimately show ?thesis by (rule conjI)
qed

subsection \<open>The voice display name\<close>

lemma matchAt_voice_none:
  "(s = [] \<or> hd s \<noteq> CHR ''('') \<Longrightarrow> matchAt False voiceSuffix_re q s = None"
  by (cases s) (auto simp: matchAt_def voiceSuffix_re_def rmatch.simps(2) rmatch.simps(5) [of _ "Char _"])

lemma matchAt_voice_some:
  assumes "\<forall>x\<in>set m. \<not> isLineTerminator x"
    and "CHR '')'' \<notin> set (takeWhile (\<lambda>x. \<not> isLineTerminator x) t)"
  shows "matchAt False voiceSuffix_re q (CHR ''('' # m @ CHR '')'' # t) = Some (length m + 2, [])"
proof -
  have "\<not> isLineTerminator CHR '')''" by (simp add: isLineTerminator_def)
  from dotThen_hd [OF this assms, of "Suc q" "[]"] obtain rest where
    "rmatch False (Seq (Star Dot) (Char CHR '')'')) (Suc q, m @ CHR '')'' # t, [])
     = (Suc q + length m + 1, t, []) # rest"
    by blast
  then show ?thesis
    by (simp add: matchAt_def voiceSuffix_re_def rmatch.simps(2) rmatch.simps(5) [of _ "Char _"])
qed

text \<open>
  C9, as stated, fails: the identifier made of \<open>a\<close>, an opening parenthesis, a line feed
  and a closing parenthesis ends in a parenthesized suffix and is returned as it is. The
  dot of \<open>/\(.*\)/g\<close> does not match the line feed, so the literal matches nowhere in it.
\<close>

theorem getVoiceName_multiline_suffix_kept:
  "getVoiceName (''a('' @ [CHR 0x0A] @ '')'') = ''a('' @ [CHR 0x0A] @ '')''"
  by code_simp

text \<open>
  C9, amended: for every voice identifier of the form \<open>p(m)\<close> in which \<open>p\<close> has no
  opening parenthesis and \<open>m\<close> no line terminator, \<open>getVoiceName\<close> strips the
  parenthesized suffix and returns \<open>p\<close>; in particular \<open>en-US-JennyNeural (Female)\<close>
  maps to \<open>en-US-JennyNeural\<close> followed by the space.
\<close>

theorem getVoiceName_strips_suffix:
  assumes "CHR ''('' \<notin> set p" and "\<forall>x\<in>set m. \<not> isLineTerminator x"
  shows "getVoiceName (p @ ''('' @ m @ '')'') = p"
proof -
  let ?a = "CHR ''('' # m @ '')''"
  have "replaceFrom False voiceSuffix_re [] 0 (p @ ?a @ [])
        = p @ replaceFrom False voiceSuffix_re [] (0 + length p) (?a @ [])"
  proof (rule replaceFrom_skip)
    fix k assume "k < length p"
    then have "drop k p \<noteq> []" and "hd (drop k p) \<in> set p"
      by (simp_all add: hd_drop_conv_nth)
    with assms(1) have "hd (drop k p @ ?a @ []) \<noteq> CHR ''(''" by auto
    then show "matchAt False voiceSuffix_re (0 + k) (drop k p @ ?a @ []) = None"
      by (intro matchAt_voice_none) simp
  qed
  moreover have "matchAt False voiceSuffix_re (0 + length p) (?a @ []) = Some (length ?a, [])"
    using matchAt_voice_some [OF assms(2), of "[]" "0 + length p"] by simp
  then have "replaceFrom False voiceSuffix_re [] (0 + length p) (?a @ [])
        = getSubstitution ?a (groupsOf voiceSuffix_re) [] [] @ replaceFrom False voiceSuffix_re [] (0 + length p + length ?a) []"
    by (rule replaceFrom_hit) simp
  moreover have "replaceFrom False voiceSuffix_re [] (0 + length p + length ?a) [] = []"
    by (rule replaceFrom_end) (simp add: matchAt_voice_none)
  ultimately show ?thesis by (simp add: getVoiceName_def replaceAll_regex_def)
qed

theorem getVoiceName_strips_suffix_witness:
  "getVoiceName ''en-US-JennyNeural (Female)'' = ''en-US-JennyNeural ''"
  using getVoiceName_strips_suffix [of "''en-US-JennyNeural ''" "''Female''"]
  by (simp add: isLineTerminator_def)

subsection \<open>The text filter rule\<close>

lemma extract_closed:
  assumes "\<forall>x\<in>set pat. \<not> isLineTerminator x"
    and "\<forall>x\<in>set fl. \<not> isLineTerminator x" and "CHR ''/'' \<notin> set fl"
  shows "replaceAll_regex False rulePattern_re ''$1'' (CHR ''/'' # pat @ CHR ''/'' # fl) = pat"
proof -
  let ?a = "CHR ''/'' # pat @ CHR ''/'' # fl"
  have m: "matchAt False rulePattern_re 0 (?a @ []) = Some (length ?a, [(1, pat)])"
    using matchAt_rulePattern_closed [OF assms] by simp
  have "replaceFrom False rulePattern_re ''$1'' 0 (?a @ [])
        = getSubstitution ?a (groupsOf rulePattern_re) [(1, pat)] ''$1'' @ replaceFrom False rulePattern_re ''$1'' (0 + length ?a) []"
    by (rule replaceFrom_hit [OF m]) simp
  moreover have "replaceFrom False rulePattern_re ''$1'' (0 + length ?a) [] = []"
    by (rule replaceFrom_end) (simp add: matchAt_rulePattern_pos)
  moreover have "getSubstitution ?a (groupsOf rulePattern_re) [(1, pat)] ''$1'' = pat"
    by (simp add: rulePattern_re_def)
  ultimately show ?thesis by (simp add: replaceAll_regex_def)
qed

lemma extract_unclosed:
  assumes "rule = [] \<or> hd rule \<noteq> CHR ''/''
           \<or> CHR ''/'' \<notin> set (takeWhile (\<lambda>x. \<not> isLineTerminator x) (tl rule))"
  shows "replaceAll_regex False rulePattern_re ''$1'' rule = rule"
proof -
  have "replaceFrom False rulePattern_re ''$1'' 0 (rule @ [])
        = rule @ replaceFrom False rulePattern_re ''$1'' (0 + length rule) []"
  proof (rule replaceFrom_skip)
    fix k assume k: "k < length rule"
    show "matchAt False rulePattern_re (0 + k) (drop k rule @ []) = None"
    proof (cases k)
      case 0
      show ?thesis
      proof (cases "rule = [] \<or> hd rule \<noteq> CHR ''/''")
        case True
        then show ?thesis using 0 by (simp add: matchAt_rulePattern_noslash)
      next
        case False
        then obtain s where r: "rule = CHR ''/'' # s" by (cases rule) auto
        with assms have "CHR ''/'' \<notin> set (takeWhile (\<lambda>x. \<not> isLineTerminator x) s)" by simp
        then show ?thesis using 0 r by (simp add: matchAt_rulePattern_unclosed)
      qed
    next
      case (Suc j)
      then show ?thesis by (simp add: matchAt_rulePattern_pos)
    qed
  qed
  moreover have "replaceFrom False rulePattern_re ''$1'' (0 + length rule) [] = []"
    by (rule replaceFrom_end) (simp add: matchAt_rulePattern_noslash)
  ultimately show ?thesis by (simp add: replaceAll_regex_def)
qed

text \<open>
  C10: for a non-empty text and a non-empty rule that is not of the shape
  \<open>/pattern/flags\<close> (no leading slash followed by a closing slash), \<open>handleTextFormat\<close>
  gives the whole rule, unchanged, to the \<open>RegExp\<close> constructor with the flags \<open>gi\<close>
  and replaces the matches in the text with one space.
\<close>

theorem handleTextFormat_verbatim_rule:
  assumes "txt \<noteq> []" and "rule \<noteq> []"
    and "\<not> (\<exists>p f. rule = ''/'' @ p @ ''/'' @ f)"
  shows "handleTextFormat engine txt rule = engine rule ''gi'' txt '' ''"
proof -
  have "rule = [] \<or> hd rule \<noteq> CHR ''/''
        \<or> CHR ''/'' \<notin> set (takeWhile (\<lambda>x. \<not> isLineTerminator x) (tl rule))"
  proof (rule ccontr)
    assume "\<not> ?thesis"
    then obtain s where r: "rule = CHR ''/'' # s" and "CHR ''/'' \<in> set s"
      by (cases rule) (auto dest: set_takeWhileD)
    then obtain p f where "s = p @ CHR ''/'' # f" by (meson split_list)
    with r have "rule = ''/'' @ p @ ''/'' @ f" by simp
    with assms(3) show False by blast
  qed
  then show ?thesis using assms(1,2) by (simp add: handleTextFormat_def extract_unclosed)
qed

theorem handleTextFormat_verbatim_rule_witness:
  "handleTextFormat regExpReplace ''Hello World'' ''o'' = Inr ''Hell  W rld''"
proof -
  have "\<not> (\<exists>p f. ''o'' = ''/'' @ p @ ''/'' @ f)" by simp
  from handleTextFormat_verbatim_rule [OF _ _ this, of "''Hello World''" regExpReplace]
  have "handleTextFormat regExpReplace ''Hello World'' ''o'' = regExpReplace ''o'' ''gi'' ''Hello World'' '' ''"
    by simp
  also have "\<dots> = Inr ''Hell  W rld''" by code_simp
  finally show ?thesis .
qed

text \<open>
  C7, as stated, fails: the literal that extracts the pattern works on the first line of
  the rule only. For the rule \<open>/a<LF>b/\<close>, of the shape \<open>/pattern/flags\<close> with the pattern
  \<open>a<LF>b\<close>, nothing is extracted and the whole rule, slashes included, is the pattern: the
  text \<open>a<LF>b\<close> comes back unchanged, where replacing the matches of the pattern portion
  gives one space.
\<close>

theorem handleTextFormat_multiline_rule_counterexample:
  "handleTextFormat regExpReplace (''a'' @ [CHR 0x0A] @ ''b'') (''/'' @ (''a'' @ [CHR 0x0A] @ ''b'') @ ''/'' @ [])
     = Inr (''a'' @ [CHR 0x0A] @ ''b'')
   \<and> regExpReplace (''a'' @ [CHR 0x0A] @ ''b'') ''gi'' (''a'' @ [CHR 0x0A] @ ''b'') '' '' = Inr '' ''"
proof -
  have "handleTextFormat regExpReplace (''a'' @ [CHR 0x0A] @ ''b'') (''/'' @ (''a'' @ [CHR 0x0A] @ ''b'') @ ''/'' @ [])
     = Inr (''a'' @ [CHR 0x0A] @ ''b'')"
    by code_simp
  moreover have "regExpReplace (''a'' @ [CHR 0x0A] @ ''b'') ''gi'' (''a'' @ [CHR 0x0A] @ ''b'') '' '' = Inr '' ''"
    by code_simp
  ultimately show ?thesis by (rule conjI)
qed

text \<open>
  C7, amended: an empty rule or an empty text gives the text back unchanged. For a
  non-empty text and a rule \<open>/pattern/flags\<close> written on one line (no line terminator in
  the pattern or the flags, no slash in the flags), \<open>handleTextFormat\<close> extracts the
  pattern portion, gives it to the \<open>RegExp\<close> constructor with the flags \<open>gi\<close> (the rule's
  own flags are dropped) and replaces the matches in the text with one space; a pattern
  that the constructor rejects makes the call throw. In particular the rule \<open>/[ \t]+/\<close>
  applied to \<open>a   b<TAB>c\<close> gives \<open>a b c\<close>.
\<close>

theorem handleTextFormat_slash_rule:
  "(txt = [] \<or> rule = [] \<longrightarrow> handleTextFormat engine txt rule = Inr txt)
   \<and> (txt \<noteq> [] \<and> (\<forall>x\<in>set pat. \<not> isLineTerminator x)
        \<and> (\<forall>x\<in>set flags. \<not> isLineTerminator x) \<and> CHR ''/'' \<notin> set flags
      \<longrightarrow> handleTextFormat engine txt (''/'' @ pat @ ''/'' @ flags) = engine pat ''gi'' txt '' '')
   \<and> handleTextFormat regExpReplace (''a   b'' @ [CHR 0x09] @ ''c'') (''/[ '' @ [CHR 0x5C] @ ''t]+/'')
       = Inr ''a b c''"
proof (intro conjI impI)
  assume "txt = [] \<or> rule = []"
  then show "handleTextFormat engine txt rule = Inr txt"
    by (auto simp: handleTextFormat_def)
next
  assume "txt \<noteq> [] \<and> (\<forall>x\<in>set pat. \<not> isLineTerminator x)
        \<and> (\<forall>x\<in>set flags. \<not> isLineTerminator x) \<and> CHR ''/'' \<notin> set flags"
  then show "handleTextFormat engine txt (''/'' @ pat @ ''/'' @ flags) = engine pat ''gi'' txt '' ''"
    by (simp add: handleTextFormat_def extract_closed)
next
  show "handleTextFormat regExpReplace (''a   b'' @ [CHR 0x09] @ ''c'') (''/[ '' @ [CHR 0x5C] @ ''t]+/'')
       = Inr ''a b c''"
    by code_simp
qed

theorem handleTextFormat_slash_rule_witness:
  "handleTextFormat regExpReplace [] ''/o/'' = Inr []
   \<and> handleTextFormat regExpReplace ''Hello World'' (''/'' @ ''O'' @ ''/'' @ ''g'') = Inr ''Hell  W rld''"
proof -
  have e: "regExpReplace ''O'' ''gi'' ''Hello World'' '' '' = Inr ''Hell  W rld''" by code_simp
  have "handleTextFormat regExpReplace [] ''/o/'' = Inr []"
    using handleTextFormat_slash_rule [of "[]" "''/o/''" regExpReplace] by simp
  moreover have "handleTextFormat regExpReplace ''Hello World'' (''/'' @ ''O'' @ ''/'' @ ''g'') = Inr ''Hell  W rld''"
    using handleTextFormat_slash_rule [of "''Hello World''" _ regExpReplace "''O''" "''g''"] e
    by (simp add: isLineTerminator_def)
  ultimately show ?thesis by (rule conjI)
qed

subsection \<open>The filename timestamp\<close>

declare natToString.simps [simp del]

lemma natToString_small: "n < 10 \<Longrightarrow> natToString n = [digitChar n]"
  by (subst natToString.simps) simp

lemma natToString_step: "10 \<le> n \<Longrightarrow> natToString n = natToString (n div 10) @ [digitChar (n mod 10)]"
  by (subst natToString.simps) simp

lemma digitChar_zero: "digitChar 0 = CHR ''0''"
  by code_simp

lemma formatTimeNumber_twoDigits: "n < 100 \<Longrightarrow> formatTimeNumber n = twoDigits n"
proof (cases "n < 10")
  case True
  then show ?thesis
    by (simp add: formatTimeNumber_def twoDigits_def natToString_small digitChar_zero)
next
  case False
  assume "n < 100"
  with False have "natToString n = [digitChar (n div 10), digitChar (n mod 10)]"
    by (simp add: natToString_step natToString_small)
  with False show ?thesis by (simp add: formatTimeNumber_def twoDigits_def)
qed

lemma natToString_four:
  assumes "1000 \<le> n" and "n \<le> 9999"
  shows "natToString n = [digitChar (n div 1000), digitChar (n div 100 mod 10),
                          digitChar (n div 10 mod 10), digitChar (n mod 10)]"
proof -
  have "natToString n = natToString (n div 10) @ [digitChar (n mod 10)]"
    using assms by (simp add: natToString_step)
  also have "natToString (n div 10) = natToString (n div 100) @ [digitChar (n div 10 mod 10)]"
    using assms by (simp add: natToString_step [of "n div 10"] div_mult2_eq [symmetric])
  also have "natToString (n div 100) = natToString (n div 1000) @ [digitChar (n div 100 mod 10)]"
    using assms by (simp add: natToString_step [of "n div 100"] div_mult2_eq [symmetric])
  also have "natToString (n div 1000) = [digitChar (n div 1000)]"
    using assms by (simp add: natToString_small)
  finally show ?thesis by simp
qed

lemma isDigit_digitChar: "k < 10 \<Longrightarrow> isDigit (digitChar k)"
  by (simp add: isDigit_def digitChar_def)

lemma isDigit_twoDigits: "n < 100 \<Longrightarrow> \<forall>c\<in>set (twoDigits n). isDigit c"
  by (simp add: twoDigits_def isDigit_digitChar)

lemma digitChar_values:
  "digitChar 0 = CHR ''0''" "digitChar 1 = CHR ''1''" "digitChar 2 = CHR ''2''"
  "digitChar 3 = CHR ''3''" "digitChar 4 = CHR ''4''" "digitChar 5 = CHR ''5''"
  "digitChar 6 = CHR ''6''" "digitChar 7 = CHR ''7''" "digitChar 8 = CHR ''8''"
  "digitChar 9 = CHR ''9''" "digitChar (Suc 0) = CHR ''1''"
  by code_simp+

text \<open>
  C8, as stated, fails: the year is printed as it is, without padding or truncation, so
  on a clock that shows the year 10000 the string has 15 digits.
\<close>

theorem getDefaultFiletime_year_10000:
  "validDate \<lparr>getFullYear = 10000, getMonth = 0, getDate = 1, getHours = 0, getMinutes = 0, getSeconds = 0\<rparr>
   \<and> getDefaultFiletime \<lparr>getFullYear = 10000, getMonth = 0, getDate = 1, getHours = 0, getMinutes = 0, getSeconds = 0\<rparr>
       = ''100000101000000''
   \<and> length ''100000101000000'' = 15"
proof -
  have "natToString 10000 = ''10000''"
    by (simp add: natToString_step natToString_small digitChar_values)
  then show ?thesis
    by (simp add: validDate_def getDefaultFiletime_def numberToString_def formatTimeNumber_def
        natToString_small digitChar_values)
qed

text \<open>
  C8, amended: when the year of the wall clock has four digits (1000 to 9999), the string
  returned by \<open>getDefaultFiletime\<close> consists of exactly 14 digits, in the form
  YYYYMMDDHHMMSS: the four digits of the year, then the month (counted from 1), the day,
  the hour, the minute and the second, each zero-padded to two digits on its own.
\<close>

theorem getDefaultFiletime_14_digits:
  assumes "validDate d" and "1000 \<le> getFullYear d" and "getFullYear d \<le> 9999"
  shows "getDefaultFiletime d
           = [digitChar (nat (getFullYear d) div 1000), digitChar (nat (getFullYear d) div 100 mod 10),
              digitChar (nat (getFullYear d) div 10 mod 10), digitChar (nat (getFullYear d) mod 10)]
             @ twoDigits (getMonth d + 1) @ twoDigits (getDate d) @ twoDigits (getHours d)
             @ twoDigits (getMinutes d) @ twoDigits (getSeconds d)
         \<and> length (getDefaultFiletime d) = 14
         \<and> (\<forall>c\<in>set (getDefaultFiletime d). isDigit c)"
proof (intro conjI)
  let ?y = "nat (getFullYear d)"
  have y: "1000 \<le> ?y" "?y \<le> 9999" using assms(2,3) by simp_all
  have ys: "numberToString (getFullYear d) = [digitChar (?y div 1000), digitChar (?y div 100 mod 10),
              digitChar (?y div 10 mod 10), digitChar (?y mod 10)]"
    using assms(2) natToString_four [OF y] by (simp add: numberToString_def)
  have r: "getMonth d + 1 < 100" "getDate d < 100" "getHours d < 100" "getMinutes d < 100" "getSeconds d < 100"
    using assms(1) by (simp_all add: validDate_def)
  show eq: "getDefaultFiletime d
           = [digitChar (?y div 1000), digitChar (?y div 100 mod 10),
              digitChar (?y div 10 mod 10), digitChar (?y mod 10)]
             @ twoDigits (getMonth d + 1) @ twoDigits (getDate d) @ twoDigits (getHours d)
             @ twoDigits (getMinutes d) @ twoDigits (getSeconds d)"
    using r by (simp add: getDefaultFiletime_def Let_def ys formatTimeNumber_twoDigits)
  show "length (getDefaultFiletime d) = 14"
    unfolding eq by (simp add: twoDigits_def)
  have "?y div 1000 < 10" "?y div 100 mod 10 < 10" "?y div 10 mod 10 < 10" "?y mod 10 < 10"
    using y by simp_all
  then have "\<forall>c\<in>set [digitChar (?y div 1000), digitChar (?y div 100 mod 10),
              digitChar (?y div 10 mod 10), digitChar (?y mod 10)]. isDigit c"
    by (simp add: isDigit_digitChar)
  moreover note r [THEN isDigit_twoDigits]
  ultimately show "\<forall>c\<in>set (getDefaultFiletime d). isDigit c"
    unfolding eq set_append by blast
qed

theorem getDefaultFiletime_14_digits_witness:
  "getDefaultFiletime \<lparr>getFullYear = 2026, getMonth = 10, getDate = 3, getHours = 9, getMinutes = 5, getSeconds = 0\<rparr>
     = ''20261103090500''
   \<and> length (getDefaultFiletime \<lparr>getFullYear = 2026, getMonth = 10, getDate = 3, getHours = 9, getMinutes = 5, getSeconds = 0\<rparr>) = 14"
proof -
  let ?d = "\<lparr>getFullYear = 2026, getMonth = 10, getDate = 3, getHours = 9, getMinutes = 5, getSeconds = 0\<rparr>"
  have v: "validDate ?d" by (simp add: validDate_def)
  have lo: "1000 \<le> getFullYear ?d" and hi: "getFullYear ?d \<le> 9999" by simp_all
  from getDefaultFiletime_14_digits [OF v lo hi]
  show ?thesis by (simp add: twoDigits_def digitChar_values)
qed

subsection \<open>The text to speak\<close>

lemma trim_Nil: "trim [] = []"
  by (simp add: trim_def)

lemma trim_split:
  "dropWhile isWhiteSpace s
   = trim s @ rev (takeWhile isWhiteSpace (rev (dropWhile isWhiteSpace s)))"
proof -
  let ?t = "dropWhile isWhiteSpace s"
  have "?t = rev (dropWhile isWhiteSpace (rev ?t)) @ rev (takeWhile isWhiteSpace (rev ?t))"
    by (metis rev_append rev_rev_ident takeWhile_dropWhile_id)
  then show ?thesis by (simp only: trim_def)
qed

lemma trim_ends:
  "trim s = [] \<or> (\<not> isWhiteSpace (hd (trim s)) \<and> \<not> isWhiteSpace (last (trim s)))"
proof (cases "trim s = []")
  case True
  then show ?thesis by (rule disjI1)
next
  case False
  let ?t = "dropWhile isWhiteSpace s"
  let ?u = "dropWhile isWhiteSpace (rev ?t)"
  have tu: "trim s = rev ?u" by (simp only: trim_def)
  have u: "?u \<noteq> []"
  proof
    assume "?u = []"
    then have "trim s = []" by (simp only: tu rev.simps)
    with False show False ..
  qed
  have l: "\<not> isWhiteSpace (last (trim s))"
    unfolding tu last_rev using u by (rule hd_dropWhile)
  have "hd ?t = hd (trim s @ rev (takeWhile isWhiteSpace (rev ?t)))"
    using trim_split [of s] by (rule arg_cong)
  also have "\<dots> = hd (trim s)" using False by (rule hd_append2)
  finally have h: "hd (trim s) = hd ?t" by (rule sym)
  have "?t \<noteq> []"
  proof
    assume "?t = []"
    then have "trim s @ rev (takeWhile isWhiteSpace (rev ?t)) = []"
      using trim_split [of s] by (simp only:)
    then have "trim s = []" by (simp only: append_is_Nil_conv)
    with False show False ..
  qed
  then have "\<not> isWhiteSpace (hd ?t)" by (rule hd_dropWhile)
  with l show ?thesis unfolding h by (intro disjI2 conjI)
qed

text \<open>
  C5: without an editor the result is the empty string. With an editor the result is
  trimmed (it is empty or neither starts nor ends with white space); a non-empty selection
  is the text, whatever the scope; with nothing selected, scope \<open>off\<close> gives the empty
  string, scope \<open>before\<close> the range from the start of the document to the cursor, and
  scope \<open>after\<close> the range from the cursor to the end of the word that the editor finds at
  the end of the last line, or to the end of the document when it finds none.
\<close>

theorem getSelectedText_scopes:
  "getSelectedText scope None = []
   \<and> (getSelection ed \<noteq> [] \<longrightarrow> getSelectedText scope (Some ed) = trim (getSelection ed))
   \<and> (getSelection ed = [] \<longrightarrow>
         getSelectedText Off (Some ed) = []
         \<and> getSelectedText Before (Some ed) = trim (getRange ed \<lparr>line = 0, ch = 0\<rparr> (getCursor ed))
         \<and> getSelectedText After (Some ed)
             = trim (getRange ed (getCursor ed)
                       (case wordAt ed \<lparr>line = lastLine ed, ch = length (getLine ed (lastLine ed))\<rparr> of
                          None \<Rightarrow> \<lparr>line = lastLine ed, ch = length (getLine ed (lastLine ed))\<rparr>
                        | Some w \<Rightarrow> range_to w)))
   \<and> (getSelectedText scope e = []
        \<or> (\<not> isWhiteSpace (hd (getSelectedText scope e))
            \<and> \<not> isWhiteSpace (last (getSelectedText scope e))))"
proof -
  have "getSelectedText scope e = []
        \<or> (\<not> isWhiteSpace (hd (getSelectedText scope e))
            \<and> \<not> isWhiteSpace (last (getSelectedText scope e)))"
  proof (cases e)
    case None
    then show ?thesis by (simp add: getSelectedText_def)
  next
    case (Some x)
    then obtain c where "getSelectedText scope e = trim c"
      by (simp add: getSelectedText_def Let_def split: prod.splits)
    then show ?thesis using trim_ends [of c] by simp
  qed
  then show ?thesis
    by (cases scope) (simp_all add: getSelectedText_def Let_def trim_Nil split: option.splits)
qed

theorem getSelectedText_scopes_witness:
  "getSelectedText Before (Some sampleEditor) = ''Hello''
   \<and> getSelectedText After (Some sampleEditor) = ''world'' @ [CHR 0x0A] @ ''second line''
   \<and> getSelectedText Off (Some sampleEditor) = []
   \<and> getSelectedText After (Some (sampleEditor\<lparr>getSelection := '' picked ''\<rparr>)) = ''picked''"
proof -
  have t1: "trim ''Hello '' = ''Hello''" by code_simp
  have t2: "trim (''world'' @ [CHR 0x0A] @ ''second line'') = ''world'' @ [CHR 0x0A] @ ''second line''"
    by code_simp
  have t3: "trim '' picked '' = ''picked''" by code_simp
  have s: "getSelection sampleEditor = []" by (simp add: sampleEditor_def)
  have p: "getSelection (sampleEditor\<lparr>getSelection := '' picked ''\<rparr>) \<noteq> []" by simp
  from getSelectedText_scopes [of Before sampleEditor] s
  have "getSelectedText Before (Some sampleEditor) = ''Hello''"
    and "getSelectedText After (Some sampleEditor) = ''world'' @ [CHR 0x0A] @ ''second line''"
    and "getSelectedText Off (Some sampleEditor) = []"
    by (simp_all add: sampleEditor_def t1 t2 [simplified])
  moreover from getSelectedText_scopes [of After "sampleEditor\<lparr>getSelection := '' picked ''\<rparr>"] p
  have "getSelectedText After (Some (sampleEditor\<lparr>getSelection := '' picked ''\<rparr>)) = ''picked''"
    by (simp add: t3)
  ultimately show ?thesis by simp
qed

section \<open>Facts about the synthesis request\<close>

lemma eventsSince_append: "events w' = events w @ X \<Longrightarrow> eventsSince w w' = X"
  by (simp add: eventsSince_def)

lemma tryBlock_Inr:
  assumes "tryBlock env cfg w = Inr (w', ev)"
  shows "events w' = events w @ eventsSince w w'"
    and "store_synthesizer w' = Some (fresh w)"
    and "live w' = fresh w # live w"
    and "filter isRelease (eventsSince w w') = []"
    and "\<forall>m t. Notice m t \<notin> set (eventsSince w w')"
    and "\<forall>h sc ac. SynthesizerConstructed h sc ac \<in> set (eventsSince w w') \<longrightarrow> h = fresh w"
    and "ssmlContentOf cfg \<noteq> [] \<longrightarrow> SpeakSsml (fresh w) (ssmlContentOf cfg) \<in> set (eventsSince w w')
          \<and> speakSsmlAsync env (fresh w) (ssmlContentOf cfg) = SpeakStarted ev"
    and "ssmlContentOf cfg = [] \<longrightarrow> ev = None \<and> filter isSpeakCall (eventsSince w w') = []"
    and "\<forall>c a. CallbackInvoked c a \<notin> set (eventsSince w w')"
    and "store_playing w' = store_playing w"
    and "fresh w' = Suc (fresh w)"
    and "SynthesizerConstructed (fresh w) (speechConfigOf cfg) (audioConfigOf cfg)
         \<in> set (eventsSince w w')"
    and "SynthesizerSet (fresh w) \<in> set (eventsSince w w')"
  using assms
  by (auto simp: tryBlock_def Let_def setAudioConfig_def setSpeechSynthesizer_def eventsSince_def
      speechConfigOf_def audioConfigOf_def
      split: option.splits if_splits sum.splits speakOutcome.splits prod.splits)

lemma tryBlock_Inl:
  assumes "tryBlock env cfg w = Inl (e, w')"
  shows "events w' = events w @ eventsSince w w'"
    and "filter isRelease (eventsSince w w') = []"
    and "\<forall>m t. Notice m t \<notin> set (eventsSince w w')"
    and "\<forall>h sc ac. SynthesizerConstructed h sc ac \<in> set (eventsSince w w')
           \<longrightarrow> h = fresh w \<and> store_synthesizer w' = Some h"
    and "ssmlContentOf cfg = [] \<longrightarrow> filter isSpeakCall (eventsSince w w') = []"
    and "(store_synthesizer w' = store_synthesizer w \<and> live w' = live w)
         \<or> (store_synthesizer w' = Some (fresh w) \<and> live w' = fresh w # live w)"
    and "\<forall>c a. CallbackInvoked c a \<notin> set (eventsSince w w')"
    and "store_playing w' = store_playing w"
  using assms
  by (auto simp: tryBlock_def Let_def setAudioConfig_def setSpeechSynthesizer_def eventsSince_def
      split: option.splits if_splits sum.splits speakOutcome.splits prod.splits)

text \<open>
  The body of the \<open>try\<close> throws exactly the exception that the SDK's answers tell, and
  ends normally exactly when none of its calls throws.
\<close>

lemma tryBlock_Inl_setup:
  assumes "tryBlock env cfg w = Inl (e, w')"
  shows "setupException env cfg w = Some e"
  using assms
  by (auto simp: tryBlock_def setupException_def speechConfigOf_def audioConfigOf_def Let_def
      setAudioConfig_def setSpeechSynthesizer_def
      split: option.splits if_splits sum.splits speakOutcome.splits prod.splits)

lemma tryBlock_Inr_setup:
  assumes "tryBlock env cfg w = Inr (w', ev)"
  shows "setupException env cfg w = None"
  using assms
  by (auto simp: tryBlock_def setupException_def speechConfigOf_def audioConfigOf_def Let_def
      setAudioConfig_def setSpeechSynthesizer_def
      split: option.splits if_splits sum.splits speakOutcome.splits prod.splits)

lemma setupException_None_iff:
  "setupException env cfg w = None \<longleftrightarrow>
     fromSubscription env (orEmpty (key cfg)) (orEmpty (region cfg)) = None
     \<and> fromSpeakerOutput env = None
     \<and> (cfg_type cfg = Save \<longrightarrow> fromAudioFileOutput env (audioFileOf cfg) = None)
     \<and> newSpeechSynthesizer env (speechConfigOf cfg) (audioConfigOf cfg) = None
     \<and> (ssmlContentOf cfg \<noteq> [] \<longrightarrow>
           (\<exists>ev. speakSsmlAsync env (fresh w) (ssmlContentOf cfg) = SpeakStarted ev))"
  by (auto simp: setupException_def split: option.splits speakOutcome.splits)

lemma prepare_fields:
  "events (clearAudioConfig (pause w))
     = events w @ Paused # (case store_synthesizer w of None \<Rightarrow> [] | Some h \<Rightarrow> [SynthesizerClosed h])
       @ [AudioConfigCleared]"
  "store_synthesizer (clearAudioConfig (pause w)) = None"
  "live (clearAudioConfig (pause w))
     = (case store_synthesizer w of None \<Rightarrow> live w | Some h \<Rightarrow> removeAll h (live w))"
  "fresh (clearAudioConfig (pause w)) = fresh w"
  "store_playing (clearAudioConfig (pause w)) = False"
  by (simp_all add: clearAudioConfig_def pause_def split: option.splits)

lemma setupException_prepare:
  "setupException env cfg (clearAudioConfig (pause w)) = setupException env cfg w"
  unfolding setupException_def prepare_fields(4) by (rule refl)

lemma generateNotice_fields:
  "events (generateNotice m t w) = events w @ [Notice m t]"
  "store_synthesizer (generateNotice m t w) = store_synthesizer w"
  "live (generateNotice m t w) = live w"
  "fresh (generateNotice m t w) = fresh w"
  "store_playing (generateNotice m t w) = store_playing w"
  by (simp_all add: generateNotice_def)

lemma synthesizerClear_fields:
  "store_synthesizer (synthesizerClear cfg w) = None"
  "live (synthesizerClear cfg w)
     = (case store_synthesizer w of None \<Rightarrow> live w | Some h \<Rightarrow> removeAll h (live w))"
  "events (synthesizerClear cfg w)
     = events w
       @ (case store_synthesizer w of None \<Rightarrow> [] | Some h \<Rightarrow> [SynthesizerClosed h])
       @ [SynthesizerCleared]
       @ (case callback cfg of None \<Rightarrow> [] | Some cb \<Rightarrow> [CallbackInvoked cb None])"
  "store_playing (synthesizerClear cfg w) = store_playing w"
  by (simp_all add: synthesizerClear_def clearsynthesizer_def Let_def split: option.splits)

text \<open>The world and the promise at the end of each path.\<close>

lemma lifecycle_exception:
  assumes "tryBlock env cfg (clearAudioConfig (pause w)) = Inl (e, w1)"
  shows "lifecycle env LANGS cfg w = (synthesizerClear cfg (generateNotice e MsgError w1), Rejected False)"
    and "generateVoice env cfg w = (synthesizerClear cfg (generateNotice e MsgError w1), Rejected False, None)"
    and "setupException env cfg w = Some e"
    and "pathOf env cfg w = SetupException e"
proof -
  show "lifecycle env LANGS cfg w = (synthesizerClear cfg (generateNotice e MsgError w1), Rejected False)"
    and "generateVoice env cfg w = (synthesizerClear cfg (generateNotice e MsgError w1), Rejected False, None)"
    using assms by (simp_all add: lifecycle_def generateVoice_def reject_def)
  show s: "setupException env cfg w = Some e"
    using tryBlock_Inl_setup [OF assms] by (simp add: setupException_prepare)
  show "pathOf env cfg w = SetupException e"
    by (simp add: pathOf_def s)
qed

lemma lifecycle_silent:
  assumes "tryBlock env cfg (clearAudioConfig (pause w)) = Inr (w1, None)"
  shows "lifecycle env LANGS cfg w = (w1, Pending)"
    and "generateVoice env cfg w = (w1, Pending, None)"
    and "setupException env cfg w = None"
    and "pathOf env cfg w = NoSettlement"
proof -
  show "lifecycle env LANGS cfg w = (w1, Pending)"
    and "generateVoice env cfg w = (w1, Pending, None)"
    using assms by (simp_all add: lifecycle_def generateVoice_def)
  show s: "setupException env cfg w = None"
    using tryBlock_Inr_setup [OF assms] by (simp add: setupException_prepare)
  show "pathOf env cfg w = NoSettlement"
    using tryBlock_Inr(7) [OF assms] by (simp add: pathOf_def s prepare_fields)
qed

lemma lifecycle_result:
  assumes "tryBlock env cfg (clearAudioConfig (pause w)) = Inr (w1, Some (OnResult r))"
  shows "lifecycle env LANGS cfg w
         = (if r = SynthesizingAudioCompleted
            then (synthesizerClear cfg
                    (generateNotice
                       (success_synthesis (LANGS (lang cfg)) @ ''. ''
                        @ (if cfg_type cfg = Save
                           then (success_save (LANGS (lang cfg)) @ '' '') @ audioFileOf cfg else []))
                       MsgSuccess w1),
                  Resolved True)
            else (synthesizerClear cfg (generateNotice (error_synthesis (LANGS (lang cfg))) MsgError w1),
                  Rejected False))"
    and "generateVoice env cfg w = (w1, Pending, Some (OnResult r))"
    and "setupException env cfg w = None"
    and "pathOf env cfg w = Completion r"
proof -
  show "lifecycle env LANGS cfg w
         = (if r = SynthesizingAudioCompleted
            then (synthesizerClear cfg
                    (generateNotice
                       (success_synthesis (LANGS (lang cfg)) @ ''. ''
                        @ (if cfg_type cfg = Save
                           then (success_save (LANGS (lang cfg)) @ '' '') @ audioFileOf cfg else []))
                       MsgSuccess w1),
                  Resolved True)
            else (synthesizerClear cfg (generateNotice (error_synthesis (LANGS (lang cfg))) MsgError w1),
                  Rejected False))"
    and "generateVoice env cfg w = (w1, Pending, Some (OnResult r))"
    using assms
    by (simp_all add: lifecycle_def generateVoice_def deliver_def resultCallback_def
        Let_def resolve_def reject_def)
  show s: "setupException env cfg w = None"
    using tryBlock_Inr_setup [OF assms] by (simp add: setupException_prepare)
  show "pathOf env cfg w = Completion r"
    using tryBlock_Inr(7,8) [OF assms] by (auto simp: pathOf_def s prepare_fields)
qed

lemma lifecycle_error:
  assumes "tryBlock env cfg (clearAudioConfig (pause w)) = Inr (w1, Some (OnError err))"
  shows "lifecycle env LANGS cfg w = (synthesizerClear cfg (generateNotice err MsgError w1), Rejected False)"
    and "generateVoice env cfg w = (w1, Pending, Some (OnError err))"
    and "setupException env cfg w = None"
    and "pathOf env cfg w = Failure err"
proof -
  show "lifecycle env LANGS cfg w = (synthesizerClear cfg (generateNotice err MsgError w1), Rejected False)"
    and "generateVoice env cfg w = (w1, Pending, Some (OnError err))"
    using assms
    by (simp_all add: lifecycle_def generateVoice_def deliver_def errorCallback_def reject_def)
  show s: "setupException env cfg w = None"
    using tryBlock_Inr_setup [OF assms] by (simp add: setupException_prepare)
  show "pathOf env cfg w = Failure err"
    using tryBlock_Inr(7,8) [OF assms] by (auto simp: pathOf_def s prepare_fields)
qed

lemma tryBlock_cases:
  obtains (exception) e w1 where "tryBlock env cfg w = Inl (e, w1)"
  | (silent) w1 where "tryBlock env cfg w = Inr (w1, None)"
  | (result) w1 r where "tryBlock env cfg w = Inr (w1, Some (OnResult r))"
  | (error) w1 err where "tryBlock env cfg w = Inr (w1, Some (OnError err))"
proof (cases "tryBlock env cfg w")
  case (Inl a)
  then show ?thesis using exception by (cases a) auto
next
  case (Inr b)
  obtain w1 ev where b: "b = (w1, ev)" by (cases b)
  show ?thesis
  proof (cases ev)
    case None
    with Inr b show ?thesis using silent by simp
  next
    case (Some c)
    with Inr b show ?thesis using result error by (cases c) simp_all
  qed
qed

lemma truthy_ssml: "truthy (cfg_text cfg) \<Longrightarrow> ssmlContentOf cfg \<noteq> []"
  by (simp add: ssmlContentOf_def Let_def)

lemma falsy_ssml: "\<not> truthy (cfg_text cfg) \<Longrightarrow> ssmlContentOf cfg = []"
  by (simp add: ssmlContentOf_def Let_def)

text \<open>The events of a whole request, path by path.\<close>

lemma eventsSince_exception:
  assumes "tryBlock env cfg (clearAudioConfig (pause w)) = Inl (e, w1)"
  shows "eventsSince w (synthesizerClear cfg (generateNotice e MsgError w1))
         = (Paused # (case store_synthesizer w of None \<Rightarrow> [] | Some h \<Rightarrow> [SynthesizerClosed h])
            @ [AudioConfigCleared])
           @ eventsSince (clearAudioConfig (pause w)) w1
           @ [Notice e MsgError]
           @ (case store_synthesizer w1 of None \<Rightarrow> [] | Some h \<Rightarrow> [SynthesizerClosed h])
           @ [SynthesizerCleared]
           @ (case callback cfg of None \<Rightarrow> [] | Some cb \<Rightarrow> [CallbackInvoked cb None])"
  by (rule eventsSince_append)
     (simp add: synthesizerClear_fields generateNotice_fields
        tryBlock_Inl(1) [OF assms] prepare_fields)

lemma eventsSince_settled:
  assumes "tryBlock env cfg (clearAudioConfig (pause w)) = Inr (w1, ev)"
  shows "eventsSince w (synthesizerClear cfg (generateNotice m t w1))
         = (Paused # (case store_synthesizer w of None \<Rightarrow> [] | Some h \<Rightarrow> [SynthesizerClosed h])
            @ [AudioConfigCleared])
           @ eventsSince (clearAudioConfig (pause w)) w1
           @ [Notice m t, SynthesizerClosed (fresh w), SynthesizerCleared]
           @ (case callback cfg of None \<Rightarrow> [] | Some cb \<Rightarrow> [CallbackInvoked cb None])"
  by (rule eventsSince_append)
     (simp add: synthesizerClear_fields generateNotice_fields
        tryBlock_Inr(1,2) [OF assms] prepare_fields)

lemma eventsSince_executor:
  assumes "tryBlock env cfg (clearAudioConfig (pause w)) = Inr (w1, ev)"
  shows "eventsSince w w1
         = (Paused # (case store_synthesizer w of None \<Rightarrow> [] | Some h \<Rightarrow> [SynthesizerClosed h])
            @ [AudioConfigCleared])
           @ eventsSince (clearAudioConfig (pause w)) w1"
  by (rule eventsSince_append) (simp add: tryBlock_Inr(1) [OF assms] prepare_fields)

lemma setupException_thrown:
  assumes "fromSubscription env (orEmpty (key cfg)) (orEmpty (region cfg)) = Some e
           \<or> fromSpeakerOutput env = Some e
           \<or> cfg_type cfg = Save \<and> fromAudioFileOutput env (audioFileOf cfg) = Some e
           \<or> newSpeechSynthesizer env (speechConfigOf cfg) (audioConfigOf cfg) = Some e
           \<or> ssmlContentOf cfg \<noteq> [] \<and> speakSsmlAsync env (fresh w) (ssmlContentOf cfg) = SpeakThrows e"
  shows "\<exists>e'. setupException env cfg w = Some e'"
  using assms by (auto simp: setupException_def split: option.splits speakOutcome.splits)

lemma lifecycle_thrown:
  assumes "setupException env cfg w = Some e"
  shows "snd (lifecycle env LANGS cfg w) = Rejected False"
    and "Notice e MsgError \<in> set (eventsSince w (fst (lifecycle env LANGS cfg w)))"
    and "lifecycle env LANGS cfg w
         = (fst (generateVoice env cfg w), fst (snd (generateVoice env cfg w)))"
proof -
  have "snd (lifecycle env LANGS cfg w) = Rejected False
        \<and> Notice e MsgError \<in> set (eventsSince w (fst (lifecycle env LANGS cfg w)))
        \<and> lifecycle env LANGS cfg w
           = (fst (generateVoice env cfg w), fst (snd (generateVoice env cfg w)))"
  proof (cases rule: tryBlock_cases [of env cfg "clearAudioConfig (pause w)"])
    case (exception e' w1)
    from lifecycle_exception(3) [OF exception] assms have "e' = e" by simp
    with exception have ex: "tryBlock env cfg (clearAudioConfig (pause w)) = Inl (e, w1)" by simp
    show ?thesis
      by (simp add: lifecycle_exception [OF ex] eventsSince_exception [OF ex])
  next
    case (silent w1)
    with assms lifecycle_silent(3) [OF silent] show ?thesis by simp
  next
    case (result w1 r)
    with assms lifecycle_result(3) [OF result] show ?thesis by simp
  next
    case (error w1 err)
    with assms lifecycle_error(3) [OF error] show ?thesis by simp
  qed
  then show "snd (lifecycle env LANGS cfg w) = Rejected False"
    and "Notice e MsgError \<in> set (eventsSince w (fst (lifecycle env LANGS cfg w)))"
    and "lifecycle env LANGS cfg w
         = (fst (generateVoice env cfg w), fst (snd (generateVoice env cfg w)))"
    by blast+
qed

text \<open>
  C1: for a request with non-empty text, the promise resolves with \<open>true\<close> exactly when
  the first callback is called with the reason \<open>SynthesizingAudioCompleted\<close>, and then a
  success notice is shown that ends, when the type is \<open>save\<close>, with the target path
  \<open>filePath/filename.audioFormatType\<close>. On every other reason, on a call of the second
  callback and on an exception during setup the promise is rejected with \<open>false\<close> and an
  error notice is shown: the localized message for a reason, the error for the second
  callback, the exception's text for an exception. Whichever of the five calls of the SDK
  throws (\<open>fromSubscription\<close>, \<open>fromSpeakerOutput\<close>, \<open>fromAudioFileOutput\<close> for the type
  \<open>save\<close>, \<open>new SpeechSynthesizer\<close>, \<open>speakSsmlAsync\<close>), the promise is rejected, and the
  notice shows the exception of the first that does. Unless setup throws, the synthesis
  call is made. The two callbacks settle a pending promise in the same way in whatever
  world the SDK calls them.
\<close>

theorem generateVoice_settles:
  assumes "truthy (cfg_text cfg)"
  shows
   "(snd (lifecycle env LANGS cfg w) = Resolved True
       \<longleftrightarrow> pathOf env cfg w = Completion SynthesizingAudioCompleted)
    \<and> (snd (lifecycle env LANGS cfg w) = Resolved True
       \<longleftrightarrow> setupException env cfg w = None
           \<and> speakSsmlAsync env (fresh w) (ssmlContentOf cfg)
             = SpeakStarted (Some (OnResult SynthesizingAudioCompleted)))
    \<and> (pathOf env cfg w = Completion SynthesizingAudioCompleted \<longrightarrow>
          Notice (success_synthesis (LANGS (lang cfg)) @ ''. ''
                  @ (if cfg_type cfg = Save
                     then (success_save (LANGS (lang cfg)) @ '' '') @ audioFileOf cfg else []))
            MsgSuccess
          \<in> set (eventsSince w (fst (lifecycle env LANGS cfg w))))
    \<and> (\<forall>fp fn ft. filePath cfg = Some fp \<and> filename cfg = Some fn \<and> audioFormatType cfg = Some ft
          \<longrightarrow> audioFileOf cfg = fp @ ''/'' @ fn @ ''.'' @ ft)
    \<and> (\<forall>r. pathOf env cfg w = Completion r \<and> r \<noteq> SynthesizingAudioCompleted \<longrightarrow>
          snd (lifecycle env LANGS cfg w) = Rejected False
          \<and> Notice (error_synthesis (LANGS (lang cfg))) MsgError
             \<in> set (eventsSince w (fst (lifecycle env LANGS cfg w))))
    \<and> (\<forall>err. pathOf env cfg w = Failure err \<longrightarrow>
          snd (lifecycle env LANGS cfg w) = Rejected False
          \<and> Notice err MsgError \<in> set (eventsSince w (fst (lifecycle env LANGS cfg w))))
    \<and> (\<forall>e. pathOf env cfg w = SetupException e \<longrightarrow>
          snd (lifecycle env LANGS cfg w) = Rejected False
          \<and> Notice e MsgError \<in> set (eventsSince w (fst (lifecycle env LANGS cfg w))))
    \<and> (\<forall>e. fromSubscription env (orEmpty (key cfg)) (orEmpty (region cfg)) = Some e
            \<or> fromSpeakerOutput env = Some e
            \<or> cfg_type cfg = Save \<and> fromAudioFileOutput env (audioFileOf cfg) = Some e
            \<or> newSpeechSynthesizer env (speechConfigOf cfg) (audioConfigOf cfg) = Some e
            \<or> speakSsmlAsync env (fresh w) (ssmlContentOf cfg) = SpeakThrows e
          \<longrightarrow> snd (lifecycle env LANGS cfg w) = Rejected False
              \<and> (\<exists>e'. setupException env cfg w = Some e'
                       \<and> Notice e' MsgError \<in> set (eventsSince w (fst (lifecycle env LANGS cfg w)))))
    \<and> (\<forall>e. setupException env cfg w = Some e \<longrightarrow> pathOf env cfg w = SetupException e)
    \<and> (\<forall>r. setupException env cfg w = None
            \<and> speakSsmlAsync env (fresh w) (ssmlContentOf cfg) = SpeakStarted (Some (OnResult r))
          \<longrightarrow> pathOf env cfg w = Completion r)
    \<and> (\<forall>err. setupException env cfg w = None
            \<and> speakSsmlAsync env (fresh w) (ssmlContentOf cfg) = SpeakStarted (Some (OnError err))
          \<longrightarrow> pathOf env cfg w = Failure err)
    \<and> ((\<forall>e. pathOf env cfg w \<noteq> SetupException e) \<longrightarrow>
          SpeakSsml (fresh w) (ssmlContentOf cfg) \<in> set (eventsSince w (fst (lifecycle env LANGS cfg w))))
    \<and> (snd (deliver LANGS cfg ev (w1, Pending)) = Resolved True
         \<longleftrightarrow> ev = OnResult SynthesizingAudioCompleted)
    \<and> (ev \<noteq> OnResult SynthesizingAudioCompleted \<longrightarrow>
          snd (deliver LANGS cfg ev (w1, Pending)) = Rejected False)"
proof -
  have dl: "(snd (deliver LANGS cfg ev (w1, Pending)) = Resolved True
         \<longleftrightarrow> ev = OnResult SynthesizingAudioCompleted)
    \<and> (ev \<noteq> OnResult SynthesizingAudioCompleted \<longrightarrow>
          snd (deliver LANGS cfg ev (w1, Pending)) = Rejected False)"
    by (cases ev)
       (simp_all add: deliver_def resultCallback_def errorCallback_def resolve_def reject_def Let_def)
  have af: "\<forall>fp fn ft. filePath cfg = Some fp \<and> filename cfg = Some fn \<and> audioFormatType cfg = Some ft
          \<longrightarrow> audioFileOf cfg = fp @ ''/'' @ fn @ ''.'' @ ft"
    by (simp add: audioFileOf_def interpolate_def)
  note ssml = truthy_ssml [OF assms]
  have th: "\<forall>e. fromSubscription env (orEmpty (key cfg)) (orEmpty (region cfg)) = Some e
            \<or> fromSpeakerOutput env = Some e
            \<or> cfg_type cfg = Save \<and> fromAudioFileOutput env (audioFileOf cfg) = Some e
            \<or> newSpeechSynthesizer env (speechConfigOf cfg) (audioConfigOf cfg) = Some e
            \<or> speakSsmlAsync env (fresh w) (ssmlContentOf cfg) = SpeakThrows e
          \<longrightarrow> snd (lifecycle env LANGS cfg w) = Rejected False
              \<and> (\<exists>e'. setupException env cfg w = Some e'
                       \<and> Notice e' MsgError \<in> set (eventsSince w (fst (lifecycle env LANGS cfg w))))"
  proof (intro allI impI)
    fix e
    assume "fromSubscription env (orEmpty (key cfg)) (orEmpty (region cfg)) = Some e
            \<or> fromSpeakerOutput env = Some e
            \<or> cfg_type cfg = Save \<and> fromAudioFileOutput env (audioFileOf cfg) = Some e
            \<or> newSpeechSynthesizer env (speechConfigOf cfg) (audioConfigOf cfg) = Some e
            \<or> speakSsmlAsync env (fresh w) (ssmlContentOf cfg) = SpeakThrows e"
    with ssml have "\<exists>e'. setupException env cfg w = Some e'"
      by (intro setupException_thrown [of env cfg e w]) blast
    then obtain e' where "setupException env cfg w = Some e'" ..
    with lifecycle_thrown(1,2) [OF this, of LANGS]
    show "snd (lifecycle env LANGS cfg w) = Rejected False
              \<and> (\<exists>e'. setupException env cfg w = Some e'
                       \<and> Notice e' MsgError \<in> set (eventsSince w (fst (lifecycle env LANGS cfg w))))"
      by blast
  qed
  have pa: "(\<forall>e. setupException env cfg w = Some e \<longrightarrow> pathOf env cfg w = SetupException e)
    \<and> (\<forall>r. setupException env cfg w = None
            \<and> speakSsmlAsync env (fresh w) (ssmlContentOf cfg) = SpeakStarted (Some (OnResult r))
          \<longrightarrow> pathOf env cfg w = Completion r)
    \<and> (\<forall>err. setupException env cfg w = None
            \<and> speakSsmlAsync env (fresh w) (ssmlContentOf cfg) = SpeakStarted (Some (OnError err))
          \<longrightarrow> pathOf env cfg w = Failure err)"
    using ssml by (simp add: pathOf_def)
  have main: "(snd (lifecycle env LANGS cfg w) = Resolved True
       \<longleftrightarrow> pathOf env cfg w = Completion SynthesizingAudioCompleted)
    \<and> (snd (lifecycle env LANGS cfg w) = Resolved True
       \<longleftrightarrow> setupException env cfg w = None
           \<and> speakSsmlAsync env (fresh w) (ssmlContentOf cfg)
             = SpeakStarted (Some (OnResult SynthesizingAudioCompleted)))
    \<and> (pathOf env cfg w = Completion SynthesizingAudioCompleted \<longrightarrow>
          Notice (success_synthesis (LANGS (lang cfg)) @ ''. ''
                  @ (if cfg_type cfg = Save
                     then (success_save (LANGS (lang cfg)) @ '' '') @ audioFileOf cfg else []))
            MsgSuccess
          \<in> set (eventsSince w (fst (lifecycle env LANGS cfg w))))
    \<and> (\<forall>r. pathOf env cfg w = Completion r \<and> r \<noteq> SynthesizingAudioCompleted \<longrightarrow>
          snd (lifecycle env LANGS cfg w) = Rejected False
          \<and> Notice (error_synthesis (LANGS (lang cfg))) MsgError
             \<in> set (eventsSince w (fst (lifecycle env LANGS cfg w))))
    \<and> (\<forall>err. pathOf env cfg w = Failure err \<longrightarrow>
          snd (lifecycle env LANGS cfg w) = Rejected False
          \<and> Notice err MsgError \<in> set (eventsSince w (fst (lifecycle env LANGS cfg w))))
    \<and> (\<forall>e. pathOf env cfg w = SetupException e \<longrightarrow>
          snd (lifecycle env LANGS cfg w) = Rejected False
          \<and> Notice e MsgError \<in> set (eventsSince w (fst (lifecycle env LANGS cfg w))))
    \<and> ((\<forall>e. pathOf env cfg w \<noteq> SetupException e) \<longrightarrow>
          SpeakSsml (fresh w) (ssmlContentOf cfg) \<in> set (eventsSince w (fst (lifecycle env LANGS cfg w))))"
  proof (cases rule: tryBlock_cases [of env cfg "clearAudioConfig (pause w)"])
    case (exception e w1)
    show ?thesis
      by (simp add: lifecycle_exception [OF exception] eventsSince_exception [OF exception])
  next
    case (silent w1)
    have "SpeakSsml (fresh w) (ssmlContentOf cfg) \<in> set (eventsSince w w1)"
      and "speakSsmlAsync env (fresh w) (ssmlContentOf cfg) = SpeakStarted None"
      using tryBlock_Inr(7) [OF silent] ssml
      by (simp_all add: eventsSince_executor [OF silent] prepare_fields)
    then show ?thesis
      by (simp add: lifecycle_silent [OF silent])
  next
    case (result w1 r)
    have sp: "SpeakSsml (fresh w) (ssmlContentOf cfg) \<in> set (eventsSince (clearAudioConfig (pause w)) w1)"
      and sa: "speakSsmlAsync env (fresh w) (ssmlContentOf cfg) = SpeakStarted (Some (OnResult r))"
      using tryBlock_Inr(7) [OF result] ssml by (simp_all add: prepare_fields)
    show ?thesis
      using sp sa
      by (simp add: lifecycle_result [OF result] eventsSince_settled [OF result])
  next
    case (error w1 err)
    have sp: "SpeakSsml (fresh w) (ssmlContentOf cfg) \<in> set (eventsSince (clearAudioConfig (pause w)) w1)"
      and sa: "speakSsmlAsync env (fresh w) (ssmlContentOf cfg) = SpeakStarted (Some (OnError err))"
      using tryBlock_Inr(7) [OF error] ssml by (simp_all add: prepare_fields)
    show ?thesis
      using sp sa
      by (simp add: lifecycle_error [OF error] eventsSince_settled [OF error])
  qed
  from main af th pa dl show ?thesis by blast
qed

theorem generateVoice_settles_witness:
  "snd (lifecycle (sdkWith (SpeakStarted (Some (OnResult SynthesizingAudioCompleted)))) tips noteConfig initialWorld)
     = Resolved True
   \<and> Notice ''Synthesis succeeded. Saved to /out/note1.mp3'' MsgSuccess
       \<in> set (eventsSince initialWorld
                (fst (lifecycle (sdkWith (SpeakStarted (Some (OnResult SynthesizingAudioCompleted))))
                        tips noteConfig initialWorld)))
   \<and> snd (lifecycle (sdkWith (SpeakStarted (Some (OnError ''timeout'')))) tips noteConfig initialWorld)
     = Rejected False
   \<and> Notice ''timeout'' MsgError
       \<in> set (eventsSince initialWorld
                (fst (lifecycle (sdkWith (SpeakStarted (Some (OnError ''timeout'')))) tips noteConfig initialWorld)))
   \<and> snd (lifecycle (sdkFailing ''Error: no output'') tips noteConfig initialWorld) = Rejected False
   \<and> Notice ''Error: no output'' MsgError
       \<in> set (eventsSince initialWorld
                (fst (lifecycle (sdkFailing ''Error: no output'') tips noteConfig initialWorld)))"
proof -
  let ?ok = "sdkWith (SpeakStarted (Some (OnResult SynthesizingAudioCompleted)))"
  let ?ko = "sdkWith (SpeakStarted (Some (OnError ''timeout'')))"
  let ?bad = "sdkFailing ''Error: no output''"
  have t: "truthy (cfg_text noteConfig)" by (simp add: noteConfig_def truthy_def)
  have p1: "pathOf ?ok noteConfig initialWorld = Completion SynthesizingAudioCompleted" by code_simp
  have p2: "pathOf ?ko noteConfig initialWorld = Failure ''timeout''" by code_simp
  have p3: "pathOf ?bad noteConfig initialWorld = SetupException ''Error: no output''" by code_simp
  have m: "success_synthesis (tips (lang noteConfig)) @ ''. ''
           @ (if cfg_type noteConfig = Save
              then (success_save (tips (lang noteConfig)) @ '' '') @ audioFileOf noteConfig else [])
           = ''Synthesis succeeded. Saved to /out/note1.mp3''"
    by code_simp
  from generateVoice_settles [OF t, of ?ok tips initialWorld] p1 m
  have "snd (lifecycle ?ok tips noteConfig initialWorld) = Resolved True"
    and "Notice ''Synthesis succeeded. Saved to /out/note1.mp3'' MsgSuccess
         \<in> set (eventsSince initialWorld (fst (lifecycle ?ok tips noteConfig initialWorld)))"
    by simp_all
  moreover from generateVoice_settles [OF t, of ?ko tips initialWorld] p2
  have "snd (lifecycle ?ko tips noteConfig initialWorld) = Rejected False"
    and "Notice ''timeout'' MsgError
         \<in> set (eventsSince initialWorld (fst (lifecycle ?ko tips noteConfig initialWorld)))"
    by simp_all
  moreover from generateVoice_settles [OF t, of ?bad tips initialWorld] p3
  have "snd (lifecycle ?bad tips noteConfig initialWorld) = Rejected False"
    and "Notice ''Error: no output'' MsgError
         \<in> set (eventsSince initialWorld (fst (lifecycle ?bad tips noteConfig initialWorld)))"
    by simp_all
  ultimately show ?thesis by simp
qed

text \<open>The live handles, in the world and in the log, through the steps of a run.\<close>

lemma replayAll_append: "replayAll l (A @ B) = replayAll (replayAll l A) B"
  by (induction A arbitrary: l) simp_all

lemma boundedLive_start: "boundedLive l evs \<Longrightarrow> length l \<le> 1"
  by (cases evs) simp_all

lemma boundedLive_append:
  "boundedLive l (A @ B) \<longleftrightarrow> boundedLive l A \<and> boundedLive (replayAll l A) B"
  by (induction A arbitrary: l) (auto dest: boundedLive_start)

lemma boundedLive_append2:
  assumes "boundedLive l A" and "replayAll l A = l1" and "boundedLive l1 B"
  shows "boundedLive l (A @ B)"
  using assms by (simp add: boundedLive_append)

lemma boundedLive_append3:
  assumes "boundedLive l A" and "replayAll l A = l1" and "boundedLive l1 B"
    and "replayAll l1 B = l2" and "boundedLive l2 C"
  shows "boundedLive l (A @ B @ C)"
  using assms by (simp add: boundedLive_append replayAll_append)

lemma replayAll_append2:
  assumes "replayAll l A = l1" and "replayAll l1 B = l2"
  shows "replayAll l (A @ B) = l2"
  using assms by (simp add: replayAll_append)

lemma replayAll_append3:
  assumes "replayAll l A = l1" and "replayAll l1 B = l2" and "replayAll l2 C = l3"
  shows "replayAll l (A @ B @ C) = l3"
  using assms by (simp add: replayAll_append)

lemma prepare_log:
  assumes "singleFlight w"
  shows "boundedLive (live w)
           (Paused # (case store_synthesizer w of None \<Rightarrow> [] | Some h \<Rightarrow> [SynthesizerClosed h])
            @ [AudioConfigCleared])"
    and "replayAll (live w)
           (Paused # (case store_synthesizer w of None \<Rightarrow> [] | Some h \<Rightarrow> [SynthesizerClosed h])
            @ [AudioConfigCleared]) = []"
    and "live (clearAudioConfig (pause w)) = []"
  using assms by (cases "store_synthesizer w"; simp add: singleFlight_def prepare_fields)+

lemma tryBlock_Inr_log:
  assumes "tryBlock env cfg w = Inr (w', ev)" and "live w = []"
  shows "boundedLive [] (eventsSince w w')"
    and "replayAll [] (eventsSince w w') = live w'"
    and "singleFlight w'"
  using assms
  by (auto simp: tryBlock_def Let_def setAudioConfig_def setSpeechSynthesizer_def eventsSince_def
      singleFlight_def
      split: option.splits if_splits sum.splits speakOutcome.splits prod.splits)

lemma tryBlock_Inl_log:
  assumes "tryBlock env cfg w = Inl (e, w')" and "live w = []" and "store_synthesizer w = None"
  shows "boundedLive [] (eventsSince w w')"
    and "replayAll [] (eventsSince w w') = live w'"
    and "singleFlight w'"
  using assms
  by (auto simp: tryBlock_def Let_def setAudioConfig_def setSpeechSynthesizer_def eventsSince_def
      singleFlight_def
      split: option.splits if_splits sum.splits speakOutcome.splits prod.splits)

lemma clear_log:
  assumes "singleFlight w"
  shows "boundedLive (live w)
           ([Notice m t]
            @ (case store_synthesizer w of None \<Rightarrow> [] | Some h \<Rightarrow> [SynthesizerClosed h])
            @ [SynthesizerCleared]
            @ (case callback cfg of None \<Rightarrow> [] | Some cb \<Rightarrow> [CallbackInvoked cb None]))"
    and "replayAll (live w)
           ([Notice m t]
            @ (case store_synthesizer w of None \<Rightarrow> [] | Some h \<Rightarrow> [SynthesizerClosed h])
            @ [SynthesizerCleared]
            @ (case callback cfg of None \<Rightarrow> [] | Some cb \<Rightarrow> [CallbackInvoked cb None])) = []"
    and "live (synthesizerClear cfg (generateNotice m t w)) = []"
    and "singleFlight (synthesizerClear cfg (generateNotice m t w))"
    and "events (synthesizerClear cfg (generateNotice m t w))
         = events w
           @ ([Notice m t]
              @ (case store_synthesizer w of None \<Rightarrow> [] | Some h \<Rightarrow> [SynthesizerClosed h])
              @ [SynthesizerCleared]
              @ (case callback cfg of None \<Rightarrow> [] | Some cb \<Rightarrow> [CallbackInvoked cb None]))"
  using assms
  by (cases "store_synthesizer w"; cases "callback cfg";
      simp add: singleFlight_def synthesizerClear_fields generateNotice_fields)+

lemma deliver_terminal:
  "\<exists>m t. fst (deliver LANGS cfg ev (w, p)) = synthesizerClear cfg (generateNotice m t w)"
  by (cases ev) (auto simp: deliver_def resultCallback_def errorCallback_def Let_def)

text \<open>
  One step of a run keeps the store's handle the only live one, and in the events that
  it logs at most one handle is ever live.
\<close>

lemma deliver_log:
  assumes "singleFlight w"
  shows "events (fst (deliver LANGS cfg ev (w, p)))
         = events w @ eventsSince w (fst (deliver LANGS cfg ev (w, p)))"
    and "boundedLive (live w) (eventsSince w (fst (deliver LANGS cfg ev (w, p))))"
    and "replayAll (live w) (eventsSince w (fst (deliver LANGS cfg ev (w, p))))
         = live (fst (deliver LANGS cfg ev (w, p)))"
    and "singleFlight (fst (deliver LANGS cfg ev (w, p)))"
    and "live (fst (deliver LANGS cfg ev (w, p))) = []"
proof -
  obtain m t where d: "fst (deliver LANGS cfg ev (w, p)) = synthesizerClear cfg (generateNotice m t w)"
    using deliver_terminal by blast
  note c = clear_log [OF assms, where m = m and t = t and cfg = cfg]
  have e: "eventsSince w (synthesizerClear cfg (generateNotice m t w))
           = [Notice m t]
             @ (case store_synthesizer w of None \<Rightarrow> [] | Some h \<Rightarrow> [SynthesizerClosed h])
             @ [SynthesizerCleared]
             @ (case callback cfg of None \<Rightarrow> [] | Some cb \<Rightarrow> [CallbackInvoked cb None])"
    by (rule eventsSince_append) (rule c(5))
  show "events (fst (deliver LANGS cfg ev (w, p)))
         = events w @ eventsSince w (fst (deliver LANGS cfg ev (w, p)))"
    unfolding d e by (rule c(5))
  show "boundedLive (live w) (eventsSince w (fst (deliver LANGS cfg ev (w, p))))"
    unfolding d e by (rule c(1))
  show "replayAll (live w) (eventsSince w (fst (deliver LANGS cfg ev (w, p))))
         = live (fst (deliver LANGS cfg ev (w, p)))"
    unfolding d e c(3) by (rule c(2))
  show "singleFlight (fst (deliver LANGS cfg ev (w, p)))"
    unfolding d by (rule c(4))
  show "live (fst (deliver LANGS cfg ev (w, p))) = []"
    unfolding d by (rule c(3))
qed

lemma generateVoice_log:
  assumes "singleFlight w"
  shows "events (fst (generateVoice env cfg w))
         = events w @ eventsSince w (fst (generateVoice env cfg w))"
    and "boundedLive (live w) (eventsSince w (fst (generateVoice env cfg w)))"
    and "replayAll (live w) (eventsSince w (fst (generateVoice env cfg w)))
         = live (fst (generateVoice env cfg w))"
    and "singleFlight (fst (generateVoice env cfg w))"
    and "setupException env cfg w \<noteq> None \<longrightarrow> live (fst (generateVoice env cfg w)) = []"
proof -
  let ?w0 = "clearAudioConfig (pause w)"
  let ?P = "Paused # (case store_synthesizer w of None \<Rightarrow> [] | Some h \<Rightarrow> [SynthesizerClosed h])
            @ [AudioConfigCleared]"
  note pl = prepare_log [OF assms]
  have "events (fst (generateVoice env cfg w))
         = events w @ eventsSince w (fst (generateVoice env cfg w))
    \<and> boundedLive (live w) (eventsSince w (fst (generateVoice env cfg w)))
    \<and> replayAll (live w) (eventsSince w (fst (generateVoice env cfg w)))
         = live (fst (generateVoice env cfg w))
    \<and> singleFlight (fst (generateVoice env cfg w))
    \<and> (setupException env cfg w \<noteq> None \<longrightarrow> live (fst (generateVoice env cfg w)) = [])"
  proof (cases "tryBlock env cfg ?w0")
    case (Inl a)
    obtain e w1 where a: "a = (e, w1)" by (cases a)
    from Inl a have ex: "tryBlock env cfg ?w0 = Inl (e, w1)" by simp
    note tl = tryBlock_Inl_log [OF ex pl(3) prepare_fields(2)]
    note cl = clear_log [OF tl(3), where m = e and t = MsgError and cfg = cfg]
    let ?T = "[Notice e MsgError]
              @ (case store_synthesizer w1 of None \<Rightarrow> [] | Some h \<Rightarrow> [SynthesizerClosed h])
              @ [SynthesizerCleared]
              @ (case callback cfg of None \<Rightarrow> [] | Some cb \<Rightarrow> [CallbackInvoked cb None])"
    let ?w' = "synthesizerClear cfg (generateNotice e MsgError w1)"
    have g: "fst (generateVoice env cfg w) = ?w'"
      by (simp add: lifecycle_exception(2) [OF ex])
    have ev: "events ?w' = events w @ (?P @ eventsSince ?w0 w1 @ ?T)"
      unfolding cl(5) tryBlock_Inl(1) [OF ex] prepare_fields(1) by simp
    have es: "eventsSince w ?w' = ?P @ eventsSince ?w0 w1 @ ?T"
      by (rule eventsSince_append) (rule ev)
    have b: "boundedLive (live w) (?P @ eventsSince ?w0 w1 @ ?T)"
      by (rule boundedLive_append3 [OF pl(1) pl(2) tl(1) tl(2) cl(1)])
    have r: "replayAll (live w) (?P @ eventsSince ?w0 w1 @ ?T) = []"
      by (rule replayAll_append3 [OF pl(2) tl(2) cl(2)])
    show ?thesis
      unfolding g es using ev b r cl(3,4) by simp
  next
    case (Inr b)
    obtain w1 ev where b: "b = (w1, ev)" by (cases b)
    from Inr b have ok: "tryBlock env cfg ?w0 = Inr (w1, ev)" by simp
    note tl = tryBlock_Inr_log [OF ok pl(3)]
    have g: "fst (generateVoice env cfg w) = w1"
      using ok by (simp add: generateVoice_def)
    have s: "setupException env cfg w = None"
      using tryBlock_Inr_setup [OF ok] by (simp add: setupException_prepare)
    have ev: "events w1 = events w @ (?P @ eventsSince ?w0 w1)"
      unfolding tryBlock_Inr(1) [OF ok] prepare_fields(1) by simp
    have es: "eventsSince w w1 = ?P @ eventsSince ?w0 w1"
      by (rule eventsSince_append) (rule ev)
    have bl: "boundedLive (live w) (?P @ eventsSince ?w0 w1)"
      by (rule boundedLive_append2 [OF pl(1) pl(2) tl(1)])
    have r: "replayAll (live w) (?P @ eventsSince ?w0 w1) = live w1"
      by (rule replayAll_append2 [OF pl(2) tl(2)])
    show ?thesis
      unfolding g es using ev bl r tl(3) s by simp
  qed
  then show "events (fst (generateVoice env cfg w))
         = events w @ eventsSince w (fst (generateVoice env cfg w))"
    and "boundedLive (live w) (eventsSince w (fst (generateVoice env cfg w)))"
    and "replayAll (live w) (eventsSince w (fst (generateVoice env cfg w)))
         = live (fst (generateVoice env cfg w))"
    and "singleFlight (fst (generateVoice env cfg w))"
    and "setupException env cfg w \<noteq> None \<longrightarrow> live (fst (generateVoice env cfg w)) = []"
    by blast+
qed

lemma advance_log:
  assumes "singleFlight w"
  shows "events (advance LANGS s w) = events w @ eventsSince w (advance LANGS s w)"
    and "boundedLive (live w) (eventsSince w (advance LANGS s w))"
    and "replayAll (live w) (eventsSince w (advance LANGS s w)) = live (advance LANGS s w)"
    and "singleFlight (advance LANGS s w)"
  using generateVoice_log(1-4) [OF assms] deliver_log(1-4) [OF assms]
  by (cases s; simp)+

lemma run_log:
  assumes "singleFlight w" and "replayAll [] (events w) = live w" and "boundedLive [] (events w)"
  shows "singleFlight (run LANGS steps w)
         \<and> replayAll [] (events (run LANGS steps w)) = live (run LANGS steps w)
         \<and> boundedLive [] (events (run LANGS steps w))"
  using assms
proof (induction steps arbitrary: w)
  case Nil
  then show ?case by simp
next
  case (Cons s steps)
  note a = advance_log [OF Cons.prems(1), where LANGS = LANGS and s = s]
  have r: "replayAll [] (events (advance LANGS s w)) = live (advance LANGS s w)"
    by (subst a(1)) (rule replayAll_append2 [OF Cons.prems(2) a(3)])
  have b: "boundedLive [] (events (advance LANGS s w))"
    by (subst a(1)) (rule boundedLive_append2 [OF Cons.prems(3) Cons.prems(2) a(2)])
  from Cons.IH [OF a(4) r b] show ?case by simp
qed

lemma run_initial:
  "singleFlight (run LANGS steps initialWorld)"
  "replayAll [] (events (run LANGS steps initialWorld)) = live (run LANGS steps initialWorld)"
  "boundedLive [] (events (run LANGS steps initialWorld))"
  "length (live (run LANGS steps initialWorld)) \<le> 1"
proof -
  have i: "singleFlight initialWorld" "replayAll [] (events initialWorld) = live initialWorld"
    "boundedLive [] (events initialWorld)"
    by (simp_all add: initialWorld_def singleFlight_def)
  note r = run_log [OF i, where LANGS = LANGS and steps = steps]
  from r show "singleFlight (run LANGS steps initialWorld)"
    and "replayAll [] (events (run LANGS steps initialWorld)) = live (run LANGS steps initialWorld)"
    and "boundedLive [] (events (run LANGS steps initialWorld))"
    by blast+
  from r have "singleFlight (run LANGS steps initialWorld)" by blast
  then show "length (live (run LANGS steps initialWorld)) \<le> 1"
    by (simp add: singleFlight_def split: option.splits)
qed

lemma lifecycle_cleanup:
  "pathOf env cfg w \<noteq> NoSettlement \<longrightarrow>
     store_synthesizer (fst (lifecycle env LANGS cfg w)) = None
     \<and> SynthesizerCleared \<in> set (eventsSince w (fst (lifecycle env LANGS cfg w)))
     \<and> (\<forall>h sc ac. SynthesizerConstructed h sc ac \<in> set (eventsSince w (fst (lifecycle env LANGS cfg w)))
           \<longrightarrow> SynthesizerClosed h \<in> set (eventsSince w (fst (lifecycle env LANGS cfg w)))
               \<and> h \<notin> set (live (fst (lifecycle env LANGS cfg w))))
     \<and> (\<forall>cb. callback cfg = Some cb \<longrightarrow>
           last (events (fst (lifecycle env LANGS cfg w))) = CallbackInvoked cb None
           \<and> (\<forall>c a. CallbackInvoked c a \<in> set (eventsSince w (fst (lifecycle env LANGS cfg w)))
                  \<longrightarrow> c = cb \<and> a = None))"
proof (cases rule: tryBlock_cases [of env cfg "clearAudioConfig (pause w)"])
  case (exception e w1)
  note i = tryBlock_Inl [OF exception]
  show ?thesis
    using i(4,6,7)
    by (auto simp: lifecycle_exception [OF exception] eventsSince_exception [OF exception]
        synthesizerClear_fields generateNotice_fields prepare_fields split: option.splits)
next
  case (silent w1)
  then show ?thesis by (simp add: lifecycle_silent [OF silent])
next
  case (result w1 r)
  note i = tryBlock_Inr [OF result]
  show ?thesis
    using i(2,3,6,9)
    by (auto simp: lifecycle_result [OF result] eventsSince_settled [OF result]
        synthesizerClear_fields generateNotice_fields prepare_fields split: option.splits)
next
  case (error w1 err)
  note i = tryBlock_Inr [OF error]
  show ?thesis
    using i(2,3,6,9)
    by (auto simp: lifecycle_error [OF error] eventsSince_settled [OF error]
        synthesizerClear_fields generateNotice_fields prepare_fields split: option.splits)
qed

lemma deliver_cleanup:
  "store_synthesizer (fst (deliver LANGS cfg ev (w1, p))) = None
   \<and> (\<forall>h. store_synthesizer w1 = Some h \<longrightarrow>
         SynthesizerClosed h \<in> set (eventsSince w1 (fst (deliver LANGS cfg ev (w1, p))))
         \<and> h \<notin> set (live (fst (deliver LANGS cfg ev (w1, p)))))
   \<and> (\<forall>cb. callback cfg = Some cb \<longrightarrow>
         last (events (fst (deliver LANGS cfg ev (w1, p)))) = CallbackInvoked cb None)"
  by (cases ev)
     (simp_all add: deliver_def resultCallback_def errorCallback_def Let_def eventsSince_def
        synthesizerClear_fields generateNotice_fields)

lemma thrown_cleanup:
  assumes "fromSubscription env (orEmpty (key cfg)) (orEmpty (region cfg)) = Some e
           \<or> fromSpeakerOutput env = Some e
           \<or> cfg_type cfg = Save \<and> fromAudioFileOutput env (audioFileOf cfg) = Some e
           \<or> newSpeechSynthesizer env (speechConfigOf cfg) (audioConfigOf cfg) = Some e
           \<or> ssmlContentOf cfg \<noteq> [] \<and> speakSsmlAsync env (fresh w) (ssmlContentOf cfg) = SpeakThrows e"
  shows "store_synthesizer (fst (generateVoice env cfg w)) = None
         \<and> SynthesizerCleared \<in> set (eventsSince w (fst (generateVoice env cfg w)))
         \<and> (\<forall>h sc ac. SynthesizerConstructed h sc ac \<in> set (eventsSince w (fst (generateVoice env cfg w)))
               \<longrightarrow> SynthesizerClosed h \<in> set (eventsSince w (fst (generateVoice env cfg w)))
                   \<and> h \<notin> set (live (fst (generateVoice env cfg w))))
         \<and> (\<forall>cb. callback cfg = Some cb \<longrightarrow>
               last (events (fst (generateVoice env cfg w))) = CallbackInvoked cb None)"
proof -
  from setupException_thrown [OF assms] obtain e' where s: "setupException env cfg w = Some e'" ..
  then have p: "pathOf env cfg w \<noteq> NoSettlement" by (simp add: pathOf_def)
  have f: "fst (lifecycle env tips cfg w) = fst (generateVoice env cfg w)"
    using lifecycle_thrown(3) [OF s, of tips] by simp
  from lifecycle_cleanup [of env cfg w tips] p show ?thesis
    unfolding f by blast
qed

lemma lifecycle_live:
  assumes "singleFlight w" and "pathOf env cfg w \<noteq> NoSettlement"
  shows "live (fst (lifecycle env LANGS cfg w)) = []"
proof (cases rule: tryBlock_cases [of env cfg "clearAudioConfig (pause w)"])
  case (exception e w1)
  have "fst (lifecycle env LANGS cfg w) = fst (generateVoice env cfg w)"
    by (simp add: lifecycle_exception [OF exception])
  with generateVoice_log(5) [OF assms(1), of env cfg] lifecycle_exception(3) [OF exception]
  show ?thesis by simp
next
  case (silent w1)
  with assms(2) show ?thesis by (simp add: lifecycle_silent [OF silent])
next
  case (result w1 r)
  from generateVoice_log(4) [OF assms(1), of env cfg] have s: "singleFlight w1"
    by (simp add: lifecycle_result(2) [OF result])
  have "lifecycle env LANGS cfg w = deliver LANGS cfg (OnResult r) (w1, Pending)"
    by (simp add: lifecycle_def lifecycle_result(2) [OF result])
  then show ?thesis using deliver_log(5) [OF s] by simp
next
  case (error w1 err)
  from generateVoice_log(4) [OF assms(1), of env cfg] have s: "singleFlight w1"
    by (simp add: lifecycle_error(2) [OF error])
  have "lifecycle env LANGS cfg w = deliver LANGS cfg (OnError err) (w1, Pending)"
    by (simp add: lifecycle_def lifecycle_error(2) [OF error])
  then show ?thesis using deliver_log(5) [OF s] by simp
qed

text \<open>
  C2: on every path that ends the request (exception during setup, first callback with
  any reason, second callback), the store's synthesizer handle is released: the store
  holds no handle afterwards, the synthesizer that this request constructed is closed and
  no longer live. The caller's callback, when there is one, is called last, once and
  without an argument. So it is whichever call of the SDK throws. The two callbacks do
  the same in whatever world the SDK calls them: the handle that the store holds then is
  closed and forgotten, and the caller's callback is called last, without an argument.
  In a run of requests that start and end in any order, no handle at all is live after
  a callback of a request or after a request that ends with an exception, so the
  request's own handle is released there too.
\<close>

theorem generateVoice_cleanup:
  "(pathOf env cfg w \<noteq> NoSettlement \<longrightarrow>
     store_synthesizer (fst (lifecycle env LANGS cfg w)) = None
     \<and> SynthesizerCleared \<in> set (eventsSince w (fst (lifecycle env LANGS cfg w)))
     \<and> (\<forall>h sc ac. SynthesizerConstructed h sc ac \<in> set (eventsSince w (fst (lifecycle env LANGS cfg w)))
           \<longrightarrow> SynthesizerClosed h \<in> set (eventsSince w (fst (lifecycle env LANGS cfg w)))
               \<and> h \<notin> set (live (fst (lifecycle env LANGS cfg w))))
     \<and> (\<forall>cb. callback cfg = Some cb \<longrightarrow>
           last (events (fst (lifecycle env LANGS cfg w))) = CallbackInvoked cb None
           \<and> (\<forall>c a. CallbackInvoked c a \<in> set (eventsSince w (fst (lifecycle env LANGS cfg w)))
                  \<longrightarrow> c = cb \<and> a = None)))
   \<and> (\<forall>e. fromSubscription env (orEmpty (key cfg)) (orEmpty (region cfg)) = Some e
           \<or> fromSpeakerOutput env = Some e
           \<or> cfg_type cfg = Save \<and> fromAudioFileOutput env (audioFileOf cfg) = Some e
           \<or> newSpeechSynthesizer env (speechConfigOf cfg) (audioConfigOf cfg) = Some e
           \<or> ssmlContentOf cfg \<noteq> [] \<and> speakSsmlAsync env (fresh w) (ssmlContentOf cfg) = SpeakThrows e
         \<longrightarrow> store_synthesizer (fst (generateVoice env cfg w)) = None
             \<and> SynthesizerCleared \<in> set (eventsSince w (fst (generateVoice env cfg w)))
             \<and> (\<forall>h sc ac. SynthesizerConstructed h sc ac \<in> set (eventsSince w (fst (generateVoice env cfg w)))
                   \<longrightarrow> SynthesizerClosed h \<in> set (eventsSince w (fst (generateVoice env cfg w)))
                       \<and> h \<notin> set (live (fst (generateVoice env cfg w))))
             \<and> (\<forall>cb. callback cfg = Some cb \<longrightarrow>
                   last (events (fst (generateVoice env cfg w))) = CallbackInvoked cb None))
   \<and> store_synthesizer (fst (deliver LANGS cfg ev (w1, p))) = None
   \<and> (\<forall>h. store_synthesizer w1 = Some h \<longrightarrow>
         SynthesizerClosed h \<in> set (eventsSince w1 (fst (deliver LANGS cfg ev (w1, p))))
         \<and> h \<notin> set (live (fst (deliver LANGS cfg ev (w1, p)))))
   \<and> (\<forall>cb. callback cfg = Some cb \<longrightarrow>
         last (events (fst (deliver LANGS cfg ev (w1, p)))) = CallbackInvoked cb None)
   \<and> live (fst (deliver LANGS cfg ev (run LANGS steps initialWorld, p))) = []
   \<and> (pathOf env cfg (run LANGS steps initialWorld) \<noteq> NoSettlement \<longrightarrow>
         live (fst (lifecycle env LANGS cfg (run LANGS steps initialWorld))) = [])
   \<and> (\<forall>e. setupException env cfg (run LANGS steps initialWorld) = Some e \<longrightarrow>
         live (fst (generateVoice env cfg (run LANGS steps initialWorld))) = [])"
proof -
  have a: "\<forall>e. fromSubscription env (orEmpty (key cfg)) (orEmpty (region cfg)) = Some e
           \<or> fromSpeakerOutput env = Some e
           \<or> cfg_type cfg = Save \<and> fromAudioFileOutput env (audioFileOf cfg) = Some e
           \<or> newSpeechSynthesizer env (speechConfigOf cfg) (audioConfigOf cfg) = Some e
           \<or> ssmlContentOf cfg \<noteq> [] \<and> speakSsmlAsync env (fresh w) (ssmlContentOf cfg) = SpeakThrows e
         \<longrightarrow> store_synthesizer (fst (generateVoice env cfg w)) = None
             \<and> SynthesizerCleared \<in> set (eventsSince w (fst (generateVoice env cfg w)))
             \<and> (\<forall>h sc ac. SynthesizerConstructed h sc ac \<in> set (eventsSince w (fst (generateVoice env cfg w)))
                   \<longrightarrow> SynthesizerClosed h \<in> set (eventsSince w (fst (generateVoice env cfg w)))
                       \<and> h \<notin> set (live (fst (generateVoice env cfg w))))
             \<and> (\<forall>cb. callback cfg = Some cb \<longrightarrow>
                   last (events (fst (generateVoice env cfg w))) = CallbackInvoked cb None)"
    by (intro allI impI) (rule thrown_cleanup)
  note r = run_initial(1) [of LANGS steps]
  have b: "live (fst (deliver LANGS cfg ev (run LANGS steps initialWorld, p))) = []"
    by (rule deliver_log(5) [OF r])
  have c: "pathOf env cfg (run LANGS steps initialWorld) \<noteq> NoSettlement \<longrightarrow>
         live (fst (lifecycle env LANGS cfg (run LANGS steps initialWorld))) = []"
    using lifecycle_live [OF r] by blast
  have d: "\<forall>e. setupException env cfg (run LANGS steps initialWorld) = Some e \<longrightarrow>
         live (fst (generateVoice env cfg (run LANGS steps initialWorld))) = []"
    using generateVoice_log(5) [OF r, of env cfg] by simp
  from lifecycle_cleanup [of env cfg w LANGS] a deliver_cleanup [of LANGS cfg ev w1 p] b c d
  show ?thesis by (intro conjI) blast+
qed

theorem generateVoice_cleanup_witness:
  "store_synthesizer
     (fst (lifecycle (sdkWith (SpeakStarted (Some (OnResult (OtherReason 1))))) tips noteConfig initialWorld))
     = None
   \<and> last (events
        (fst (lifecycle (sdkWith (SpeakStarted (Some (OnResult (OtherReason 1))))) tips noteConfig initialWorld)))
     = CallbackInvoked 7 None
   \<and> store_synthesizer (fst (generateVoice (sdkFailing ''Error: no output'') noteConfig initialWorld)) = None
   \<and> last (events (fst (generateVoice (sdkFailing ''Error: no output'') noteConfig initialWorld)))
     = CallbackInvoked 7 None
   \<and> live (fst (deliver tips noteConfig (OnResult SynthesizingAudioCompleted)
                  (run tips
                     [Invoke (sdkWith (SpeakStarted (Some (OnResult SynthesizingAudioCompleted)))) noteConfig,
                      Invoke (sdkWith (SpeakStarted (Some (OnResult SynthesizingAudioCompleted)))) noteConfig]
                     initialWorld,
                   Pending)))
     = []"
proof -
  let ?env = "sdkWith (SpeakStarted (Some (OnResult (OtherReason 1))))"
  let ?ok = "sdkWith (SpeakStarted (Some (OnResult SynthesizingAudioCompleted)))"
  let ?bad = "sdkFailing ''Error: no output''"
  have p: "pathOf ?env noteConfig initialWorld = Completion (OtherReason 1)" by code_simp
  have c: "callback noteConfig = Some 7" by (simp add: noteConfig_def)
  have n: "newSpeechSynthesizer ?bad (speechConfigOf noteConfig) (audioConfigOf noteConfig)
           = Some ''Error: no output''"
    by (simp add: sdkFailing_def)
  from generateVoice_cleanup [where env = ?env and cfg = noteConfig and w = initialWorld and LANGS = tips] p c
  have "store_synthesizer (fst (lifecycle ?env tips noteConfig initialWorld)) = None"
    and "last (events (fst (lifecycle ?env tips noteConfig initialWorld))) = CallbackInvoked 7 None"
    by simp_all
  moreover
  from generateVoice_cleanup [where env = ?bad and cfg = noteConfig and w = initialWorld and LANGS = tips] n c
  have "store_synthesizer (fst (generateVoice ?bad noteConfig initialWorld)) = None"
    and "last (events (fst (generateVoice ?bad noteConfig initialWorld))) = CallbackInvoked 7 None"
    by blast+
  moreover
  from generateVoice_cleanup [where cfg = noteConfig and LANGS = tips
      and ev = "OnResult SynthesizingAudioCompleted" and p = Pending
      and steps = "[Invoke ?ok noteConfig, Invoke ?ok noteConfig]"]
  have "live (fst (deliver tips noteConfig (OnResult SynthesizingAudioCompleted)
                  (run tips [Invoke ?ok noteConfig, Invoke ?ok noteConfig] initialWorld, Pending))) = []"
    by blast
  ultimately show ?thesis by simp
qed

text \<open>
  C3, as stated, fails: with empty or absent text the promise is rejected with \<open>false\<close>
  when setup throws, as it does when the key is absent too (\<open>fromSubscription\<close> refuses
  an empty key).
\<close>

theorem generateVoice_empty_text_rejected:
  "\<not> truthy (cfg_text (noteConfig\<lparr>cfg_text := None, key := None\<rparr>))
   \<and> generateVoice (sdkWith (SpeakStarted None)) (noteConfig\<lparr>cfg_text := None, key := None\<rparr>) initialWorld
     = (\<lparr>store_synthesizer = None, store_audioConfig = None, store_playing = False, live = [], fresh = 0,
         events = [Paused, AudioConfigCleared,
                   Notice ''Error: throwIfNullOrWhitespace:subscriptionKey'' MsgError,
                   SynthesizerCleared, CallbackInvoked 7 None]\<rparr>,
        Rejected False, None)"
  by code_simp

lemma constructors_thrown:
  assumes "ssmlContentOf cfg = []"
  shows "(\<exists>e. setupException env cfg w = Some e)
         \<longleftrightarrow> (\<exists>e. fromSubscription env (orEmpty (key cfg)) (orEmpty (region cfg)) = Some e
                 \<or> fromSpeakerOutput env = Some e
                 \<or> cfg_type cfg = Save \<and> fromAudioFileOutput env (audioFileOf cfg) = Some e
                 \<or> newSpeechSynthesizer env (speechConfigOf cfg) (audioConfigOf cfg) = Some e)"
  using assms by (auto simp: setupException_def split: option.splits if_splits)

text \<open>
  C3, amended: for a request whose text is empty or absent, no synthesis call is made and
  no callback is given to the SDK; the promise neither resolves nor rejects unless an
  exception is thrown during setup, in which case it is rejected with \<open>false\<close> and the
  error notice is shown. The promise is rejected exactly when one of the four
  constructors throws (\<open>fromSubscription\<close>, \<open>fromSpeakerOutput\<close>, \<open>fromAudioFileOutput\<close>
  for the type \<open>save\<close>, \<open>new SpeechSynthesizer\<close>), and stays pending otherwise.
\<close>

theorem generateVoice_empty_text:
  "\<not> truthy (cfg_text cfg) \<longrightarrow>
     filter isSpeakCall (eventsSince w (fst (generateVoice env cfg w))) = []
     \<and> snd (snd (generateVoice env cfg w)) = None
     \<and> lifecycle env LANGS cfg w = (fst (generateVoice env cfg w), fst (snd (generateVoice env cfg w)))
     \<and> (pathOf env cfg w = NoSettlement \<or> (\<exists>e. pathOf env cfg w = SetupException e))
     \<and> (pathOf env cfg w = NoSettlement \<longrightarrow> fst (snd (generateVoice env cfg w)) = Pending)
     \<and> (\<forall>e. pathOf env cfg w = SetupException e \<longrightarrow>
           fst (snd (generateVoice env cfg w)) = Rejected False
           \<and> Notice e MsgError \<in> set (eventsSince w (fst (generateVoice env cfg w))))
     \<and> (fst (snd (generateVoice env cfg w)) = Rejected False
        \<longleftrightarrow> (\<exists>e. fromSubscription env (orEmpty (key cfg)) (orEmpty (region cfg)) = Some e
                 \<or> fromSpeakerOutput env = Some e
                 \<or> cfg_type cfg = Save \<and> fromAudioFileOutput env (audioFileOf cfg) = Some e
                 \<or> newSpeechSynthesizer env (speechConfigOf cfg) (audioConfigOf cfg) = Some e))
     \<and> (fst (snd (generateVoice env cfg w)) = Pending
        \<longleftrightarrow> \<not> (\<exists>e. fromSubscription env (orEmpty (key cfg)) (orEmpty (region cfg)) = Some e
                 \<or> fromSpeakerOutput env = Some e
                 \<or> cfg_type cfg = Save \<and> fromAudioFileOutput env (audioFileOf cfg) = Some e
                 \<or> newSpeechSynthesizer env (speechConfigOf cfg) (audioConfigOf cfg) = Some e))
     \<and> (\<forall>e. setupException env cfg w = Some e \<longrightarrow>
           Notice e MsgError \<in> set (eventsSince w (fst (generateVoice env cfg w))))"
proof
  assume "\<not> truthy (cfg_text cfg)"
  then have ssml: "ssmlContentOf cfg = []" by (rule falsy_ssml)
  have big: "(filter isSpeakCall (eventsSince w (fst (generateVoice env cfg w))) = []
     \<and> snd (snd (generateVoice env cfg w)) = None
     \<and> lifecycle env LANGS cfg w = (fst (generateVoice env cfg w), fst (snd (generateVoice env cfg w)))
     \<and> (pathOf env cfg w = NoSettlement \<or> (\<exists>e. pathOf env cfg w = SetupException e))
     \<and> (pathOf env cfg w = NoSettlement \<longrightarrow> fst (snd (generateVoice env cfg w)) = Pending)
     \<and> (\<forall>e. pathOf env cfg w = SetupException e \<longrightarrow>
           fst (snd (generateVoice env cfg w)) = Rejected False
           \<and> Notice e MsgError \<in> set (eventsSince w (fst (generateVoice env cfg w)))))
    \<and> fst (snd (generateVoice env cfg w))
             = (case setupException env cfg w of None \<Rightarrow> Pending | Some e \<Rightarrow> Rejected False)
    \<and> (\<forall>e. setupException env cfg w = Some e \<longrightarrow>
           Notice e MsgError \<in> set (eventsSince w (fst (generateVoice env cfg w))))"
  proof (cases rule: tryBlock_cases [of env cfg "clearAudioConfig (pause w)"])
    case (exception e w1)
    show ?thesis
      using tryBlock_Inl(5) [OF exception] ssml
      by (simp add: lifecycle_exception [OF exception] eventsSince_exception [OF exception]
          split: option.splits)
  next
    case (silent w1)
    show ?thesis
      using tryBlock_Inr(8) [OF silent] ssml
      by (simp add: lifecycle_silent [OF silent] eventsSince_executor [OF silent]
          split: option.splits)
  next
    case (result w1 r)
    with tryBlock_Inr(8) [OF result] ssml show ?thesis by simp
  next
    case (error w1 err)
    with tryBlock_Inr(8) [OF error] ssml show ?thesis by simp
  qed
  then have base: "filter isSpeakCall (eventsSince w (fst (generateVoice env cfg w))) = []
     \<and> snd (snd (generateVoice env cfg w)) = None
     \<and> lifecycle env LANGS cfg w = (fst (generateVoice env cfg w), fst (snd (generateVoice env cfg w)))
     \<and> (pathOf env cfg w = NoSettlement \<or> (\<exists>e. pathOf env cfg w = SetupException e))
     \<and> (pathOf env cfg w = NoSettlement \<longrightarrow> fst (snd (generateVoice env cfg w)) = Pending)
     \<and> (\<forall>e. pathOf env cfg w = SetupException e \<longrightarrow>
           fst (snd (generateVoice env cfg w)) = Rejected False
           \<and> Notice e MsgError \<in> set (eventsSince w (fst (generateVoice env cfg w))))"
    and st: "fst (snd (generateVoice env cfg w))
             = (case setupException env cfg w of None \<Rightarrow> Pending | Some e \<Rightarrow> Rejected False)"
    and nt: "\<forall>e. setupException env cfg w = Some e \<longrightarrow>
           Notice e MsgError \<in> set (eventsSince w (fst (generateVoice env cfg w)))"
    by blast+
  have "fst (snd (generateVoice env cfg w)) = Rejected False
        \<longleftrightarrow> (\<exists>e. setupException env cfg w = Some e)"
    unfolding st by (cases "setupException env cfg w") simp_all
  then have rj: "fst (snd (generateVoice env cfg w)) = Rejected False
        \<longleftrightarrow> (\<exists>e. fromSubscription env (orEmpty (key cfg)) (orEmpty (region cfg)) = Some e
                 \<or> fromSpeakerOutput env = Some e
                 \<or> cfg_type cfg = Save \<and> fromAudioFileOutput env (audioFileOf cfg) = Some e
                 \<or> newSpeechSynthesizer env (speechConfigOf cfg) (audioConfigOf cfg) = Some e)"
    unfolding constructors_thrown [OF ssml] .
  have "fst (snd (generateVoice env cfg w)) = Pending
        \<longleftrightarrow> \<not> (\<exists>e. setupException env cfg w = Some e)"
    unfolding st by (cases "setupException env cfg w") simp_all
  then have pd: "fst (snd (generateVoice env cfg w)) = Pending
        \<longleftrightarrow> \<not> (\<exists>e. fromSubscription env (orEmpty (key cfg)) (orEmpty (region cfg)) = Some e
                 \<or> fromSpeakerOutput env = Some e
                 \<or> cfg_type cfg = Save \<and> fromAudioFileOutput env (audioFileOf cfg) = Some e
                 \<or> newSpeechSynthesizer env (speechConfigOf cfg) (audioConfigOf cfg) = Some e)"
    unfolding constructors_thrown [OF ssml] .
  from base rj pd nt
  show "filter isSpeakCall (eventsSince w (fst (generateVoice env cfg w))) = []
     \<and> snd (snd (generateVoice env cfg w)) = None
     \<and> lifecycle env LANGS cfg w = (fst (generateVoice env cfg w), fst (snd (generateVoice env cfg w)))
     \<and> (pathOf env cfg w = NoSettlement \<or> (\<exists>e. pathOf env cfg w = SetupException e))
     \<and> (pathOf env cfg w = NoSettlement \<longrightarrow> fst (snd (generateVoice env cfg w)) = Pending)
     \<and> (\<forall>e. pathOf env cfg w = SetupException e \<longrightarrow>
           fst (snd (generateVoice env cfg w)) = Rejected False
           \<and> Notice e MsgError \<in> set (eventsSince w (fst (generateVoice env cfg w))))
     \<and> (fst (snd (generateVoice env cfg w)) = Rejected False
        \<longleftrightarrow> (\<exists>e. fromSubscription env (orEmpty (key cfg)) (orEmpty (region cfg)) = Some e
                 \<or> fromSpeakerOutput env = Some e
                 \<or> cfg_type cfg = Save \<and> fromAudioFileOutput env (audioFileOf cfg) = Some e
                 \<or> newSpeechSynthesizer env (speechConfigOf cfg) (audioConfigOf cfg) = Some e))
     \<and> (fst (snd (generateVoice env cfg w)) = Pending
        \<longleftrightarrow> \<not> (\<exists>e. fromSubscription env (orEmpty (key cfg)) (orEmpty (region cfg)) = Some e
                 \<or> fromSpeakerOutput env = Some e
                 \<or> cfg_type cfg = Save \<and> fromAudioFileOutput env (audioFileOf cfg) = Some e
                 \<or> newSpeechSynthesizer env (speechConfigOf cfg) (audioConfigOf cfg) = Some e))
     \<and> (\<forall>e. setupException env cfg w = Some e \<longrightarrow>
           Notice e MsgError \<in> set (eventsSince w (fst (generateVoice env cfg w))))"
    by (intro conjI) (elim conjE, assumption)+
qed

theorem generateVoice_empty_text_witness:
  "filter isSpeakCall
     (eventsSince initialWorld
        (fst (generateVoice (sdkWith (SpeakStarted None)) (noteConfig\<lparr>cfg_text := Some []\<rparr>) initialWorld)))
     = []
   \<and> fst (snd (generateVoice (sdkWith (SpeakStarted None)) (noteConfig\<lparr>cfg_text := Some []\<rparr>) initialWorld))
     = Pending
   \<and> fst (snd (generateVoice (sdkFailing ''Error: no output'') (noteConfig\<lparr>cfg_text := None\<rparr>) initialWorld))
     = Rejected False
   \<and> Notice ''Error: no output'' MsgError
       \<in> set (eventsSince initialWorld
                (fst (generateVoice (sdkFailing ''Error: no output'') (noteConfig\<lparr>cfg_text := None\<rparr>)
                        initialWorld)))"
proof -
  let ?cfg = "noteConfig\<lparr>cfg_text := Some []\<rparr>"
  let ?cfg' = "noteConfig\<lparr>cfg_text := None\<rparr>"
  let ?bad = "sdkFailing ''Error: no output''"
  have t: "\<not> truthy (cfg_text ?cfg)" "\<not> truthy (cfg_text ?cfg')" by (simp_all add: truthy_def)
  have p: "pathOf (sdkWith (SpeakStarted None)) ?cfg initialWorld = NoSettlement" by code_simp
  have p': "pathOf ?bad ?cfg' initialWorld = SetupException ''Error: no output''" by code_simp
  from generateVoice_empty_text [of ?cfg initialWorld "sdkWith (SpeakStarted None)" tips] t p
  have "filter isSpeakCall
          (eventsSince initialWorld (fst (generateVoice (sdkWith (SpeakStarted None)) ?cfg initialWorld))) = []"
    and "fst (snd (generateVoice (sdkWith (SpeakStarted None)) ?cfg initialWorld)) = Pending"
    by blast+
  moreover
  from generateVoice_empty_text [of ?cfg' initialWorld ?bad tips] t p'
  have "fst (snd (generateVoice ?bad ?cfg' initialWorld)) = Rejected False"
    and "Notice ''Error: no output'' MsgError
         \<in> set (eventsSince initialWorld (fst (generateVoice ?bad ?cfg' initialWorld)))"
    by blast+
  ultimately show ?thesis by simp
qed

text \<open>What every request does first, and what it leaves.\<close>

lemma generateVoice_prefix:
  "\<exists>rest. eventsSince w (fst (generateVoice env cfg w))
          = Paused # (case store_synthesizer w of None \<Rightarrow> [] | Some h \<Rightarrow> [SynthesizerClosed h])
            @ AudioConfigCleared # rest"
proof (cases rule: tryBlock_cases [of env cfg "clearAudioConfig (pause w)"])
  case (exception e w1)
  show ?thesis by (simp add: lifecycle_exception [OF exception] eventsSince_exception [OF exception])
next
  case (silent w1)
  show ?thesis by (simp add: lifecycle_silent [OF silent] eventsSince_executor [OF silent])
next
  case (result w1 r)
  show ?thesis by (simp add: lifecycle_result [OF result] eventsSince_executor [OF result])
next
  case (error w1 err)
  show ?thesis by (simp add: lifecycle_error [OF error] eventsSince_executor [OF error])
qed

lemma generateVoice_executor:
  obtains (thrown) e w1 where "tryBlock env cfg (clearAudioConfig (pause w)) = Inl (e, w1)"
      and "generateVoice env cfg w = (synthesizerClear cfg (generateNotice e MsgError w1), Rejected False, None)"
  | (started) w1 ev where "tryBlock env cfg (clearAudioConfig (pause w)) = Inr (w1, ev)"
      and "generateVoice env cfg w = (w1, Pending, ev)"
proof (cases rule: tryBlock_cases [of env cfg "clearAudioConfig (pause w)"])
  case (exception e w1)
  then show ?thesis using thrown lifecycle_exception(2) [OF exception] by blast
next
  case (silent w1)
  then show ?thesis using started lifecycle_silent(2) [OF silent] by blast
next
  case (result w1 r)
  then show ?thesis using started lifecycle_result(2) [OF result] by blast
next
  case (error w1 err)
  then show ?thesis using started lifecycle_error(2) [OF error] by blast
qed

lemma generateVoice_constructs:
  "\<forall>h sc ac. SynthesizerConstructed h sc ac \<in> set (eventsSince w (fst (generateVoice env cfg w)))
      \<longrightarrow> h = fresh w"
proof (cases rule: generateVoice_executor [of env cfg w])
  case (thrown e w1)
  show ?thesis
    using tryBlock_Inl(4) [OF thrown(1)]
    by (auto simp: thrown(2) eventsSince_exception [OF thrown(1)] prepare_fields split: option.splits)
next
  case (started w1 ev)
  show ?thesis
    using tryBlock_Inr(6) [OF started(1)]
    by (auto simp: started(2) eventsSince_executor [OF started(1)] prepare_fields split: option.splits)
qed

lemma generateVoice_playing: "store_playing (fst (generateVoice env cfg w)) = False"
proof (cases rule: generateVoice_executor [of env cfg w])
  case (thrown e w1)
  show ?thesis
    using tryBlock_Inl(8) [OF thrown(1)]
    by (simp add: thrown(2) synthesizerClear_fields generateNotice_fields prepare_fields)
next
  case (started w1 ev)
  show ?thesis
    using tryBlock_Inr(10) [OF started(1)] by (simp add: started(2) prepare_fields)
qed

lemma generateVoice_pending:
  "(fst (snd (generateVoice env cfg w)) = Pending \<longrightarrow>
      store_synthesizer (fst (generateVoice env cfg w)) = Some (fresh w)
      \<and> fresh (fst (generateVoice env cfg w)) = Suc (fresh w)
      \<and> SynthesizerConstructed (fresh w) (speechConfigOf cfg) (audioConfigOf cfg)
         \<in> set (eventsSince w (fst (generateVoice env cfg w)))
      \<and> SynthesizerSet (fresh w) \<in> set (eventsSince w (fst (generateVoice env cfg w))))
   \<and> (fst (snd (generateVoice env cfg w)) \<noteq> Pending \<longrightarrow>
      store_synthesizer (fst (generateVoice env cfg w)) = None)"
proof (cases rule: generateVoice_executor [of env cfg w])
  case (thrown e w1)
  show ?thesis by (simp add: thrown(2) synthesizerClear_fields)
next
  case (started w1 ev)
  show ?thesis
    using tryBlock_Inr(2,11,12,13) [OF started(1)]
    by (simp add: started(2) eventsSince_executor [OF started(1)] prepare_fields)
qed

lemma generateVoice_live_subset:
  "set (live (fst (generateVoice env cfg w)))
   \<subseteq> insert (fresh w) (set (live (clearAudioConfig (pause w))))"
proof (cases rule: generateVoice_executor [of env cfg w])
  case (thrown e w1)
  show ?thesis
    using tryBlock_Inl(6) [OF thrown(1)]
    by (auto simp: thrown(2) synthesizerClear_fields generateNotice_fields prepare_fields
        split: option.splits)
next
  case (started w1 ev)
  show ?thesis
    using tryBlock_Inr(3) [OF started(1)] by (auto simp: started(2) prepare_fields)
qed

lemma generateVoice_second:
  assumes "fst (snd (generateVoice env1 cfg1 w)) = Pending"
  shows "store_synthesizer (fst (generateVoice env1 cfg1 w)) = Some (fresh w)"
    and "SynthesizerConstructed (fresh w) (speechConfigOf cfg1) (audioConfigOf cfg1)
         \<in> set (eventsSince w (fst (generateVoice env1 cfg1 w)))"
    and "\<exists>rest. eventsSince (fst (generateVoice env1 cfg1 w))
                  (fst (generateVoice env cfg (fst (generateVoice env1 cfg1 w))))
                = Paused # SynthesizerClosed (fresh w) # AudioConfigCleared # rest"
    and "fresh w \<notin> set (live (fst (generateVoice env cfg (fst (generateVoice env1 cfg1 w)))))"
    and "\<forall>h sc ac. SynthesizerConstructed h sc ac
            \<in> set (eventsSince (fst (generateVoice env1 cfg1 w))
                      (fst (generateVoice env cfg (fst (generateVoice env1 cfg1 w)))))
          \<longrightarrow> h = Suc (fresh w)"
proof -
  let ?w1 = "fst (generateVoice env1 cfg1 w)"
  from generateVoice_pending [of env1 cfg1 w] assms
  have s: "store_synthesizer ?w1 = Some (fresh w)" and f: "fresh ?w1 = Suc (fresh w)"
    and c: "SynthesizerConstructed (fresh w) (speechConfigOf cfg1) (audioConfigOf cfg1)
            \<in> set (eventsSince w ?w1)"
    by blast+
  show "store_synthesizer ?w1 = Some (fresh w)" by (rule s)
  show "SynthesizerConstructed (fresh w) (speechConfigOf cfg1) (audioConfigOf cfg1)
         \<in> set (eventsSince w ?w1)" by (rule c)
  show "\<exists>rest. eventsSince ?w1 (fst (generateVoice env cfg ?w1))
                = Paused # SynthesizerClosed (fresh w) # AudioConfigCleared # rest"
    using generateVoice_prefix [of ?w1 env cfg] by (simp add: s)
  show "fresh w \<notin> set (live (fst (generateVoice env cfg ?w1)))"
    using generateVoice_live_subset [of env cfg ?w1] by (auto simp: prepare_fields s f)
  show "\<forall>h sc ac. SynthesizerConstructed h sc ac
            \<in> set (eventsSince ?w1 (fst (generateVoice env cfg ?w1)))
          \<longrightarrow> h = Suc (fresh w)"
    using generateVoice_constructs [of ?w1 env cfg] by (simp add: f)
qed

text \<open>
  C4: every request first stops the playback and releases the handle that the store
  holds, and clears the store's audio configuration, before anything else: these are
  the first events that it logs, and the synthesizer that it constructs afterwards is a
  new one. Of two requests one after the other, when the first is still pending its
  handle is the store's, and the second closes it first of all, so that it is no longer
  live when the second constructs its own, the next handle; when the first has ended with
  an exception the store holds no handle. In every run of requests and callbacks, in any
  order, at most one handle is live at any time: in the world after every step, where
  it is the store's, and in the log after every event.
\<close>

theorem generateVoice_single_flight:
  "(\<exists>rest. eventsSince w (fst (generateVoice env cfg w))
           = Paused # (case store_synthesizer w of None \<Rightarrow> [] | Some h \<Rightarrow> [SynthesizerClosed h])
             @ AudioConfigCleared # rest)
   \<and> store_playing (fst (generateVoice env cfg w)) = False
   \<and> (\<forall>h sc ac. SynthesizerConstructed h sc ac \<in> set (eventsSince w (fst (generateVoice env cfg w)))
          \<longrightarrow> h = fresh w)
   \<and> (fst (snd (generateVoice env1 cfg1 w)) = Pending \<longrightarrow>
         store_synthesizer (fst (generateVoice env1 cfg1 w)) = Some (fresh w)
         \<and> SynthesizerConstructed (fresh w) (speechConfigOf cfg1) (audioConfigOf cfg1)
            \<in> set (eventsSince w (fst (generateVoice env1 cfg1 w)))
         \<and> (\<exists>rest. eventsSince (fst (generateVoice env1 cfg1 w))
                      (fst (generateVoice env cfg (fst (generateVoice env1 cfg1 w))))
                    = Paused # SynthesizerClosed (fresh w) # AudioConfigCleared # rest)
         \<and> fresh w \<notin> set (live (fst (generateVoice env cfg (fst (generateVoice env1 cfg1 w)))))
         \<and> (\<forall>h sc ac. SynthesizerConstructed h sc ac
                \<in> set (eventsSince (fst (generateVoice env1 cfg1 w))
                          (fst (generateVoice env cfg (fst (generateVoice env1 cfg1 w)))))
              \<longrightarrow> h = Suc (fresh w)))
   \<and> (fst (snd (generateVoice env1 cfg1 w)) \<noteq> Pending \<longrightarrow>
         store_synthesizer (fst (generateVoice env1 cfg1 w)) = None)
   \<and> singleFlight (run LANGS steps initialWorld)
   \<and> length (live (run LANGS steps initialWorld)) \<le> 1
   \<and> replayAll [] (events (run LANGS steps initialWorld)) = live (run LANGS steps initialWorld)
   \<and> boundedLive [] (events (run LANGS steps initialWorld))"
proof -
  have two: "fst (snd (generateVoice env1 cfg1 w)) = Pending \<longrightarrow>
         store_synthesizer (fst (generateVoice env1 cfg1 w)) = Some (fresh w)
         \<and> SynthesizerConstructed (fresh w) (speechConfigOf cfg1) (audioConfigOf cfg1)
            \<in> set (eventsSince w (fst (generateVoice env1 cfg1 w)))
         \<and> (\<exists>rest. eventsSince (fst (generateVoice env1 cfg1 w))
                      (fst (generateVoice env cfg (fst (generateVoice env1 cfg1 w))))
                    = Paused # SynthesizerClosed (fresh w) # AudioConfigCleared # rest)
         \<and> fresh w \<notin> set (live (fst (generateVoice env cfg (fst (generateVoice env1 cfg1 w)))))
         \<and> (\<forall>h sc ac. SynthesizerConstructed h sc ac
                \<in> set (eventsSince (fst (generateVoice env1 cfg1 w))
                          (fst (generateVoice env cfg (fst (generateVoice env1 cfg1 w)))))
              \<longrightarrow> h = Suc (fresh w))"
  proof
    assume a: "fst (snd (generateVoice env1 cfg1 w)) = Pending"
    show "store_synthesizer (fst (generateVoice env1 cfg1 w)) = Some (fresh w)
         \<and> SynthesizerConstructed (fresh w) (speechConfigOf cfg1) (audioConfigOf cfg1)
            \<in> set (eventsSince w (fst (generateVoice env1 cfg1 w)))
         \<and> (\<exists>rest. eventsSince (fst (generateVoice env1 cfg1 w))
                      (fst (generateVoice env cfg (fst (generateVoice env1 cfg1 w))))
                    = Paused # SynthesizerClosed (fresh w) # AudioConfigCleared # rest)
         \<and> fresh w \<notin> set (live (fst (generateVoice env cfg (fst (generateVoice env1 cfg1 w)))))
         \<and> (\<forall>h sc ac. SynthesizerConstructed h sc ac
                \<in> set (eventsSince (fst (generateVoice env1 cfg1 w))
                          (fst (generateVoice env cfg (fst (generateVoice env1 cfg1 w)))))
              \<longrightarrow> h = Suc (fresh w))"
      by (intro conjI) (rule generateVoice_second [OF a])+
  qed
  have over: "fst (snd (generateVoice env1 cfg1 w)) \<noteq> Pending \<longrightarrow>
         store_synthesizer (fst (generateVoice env1 cfg1 w)) = None"
    using generateVoice_pending [of env1 cfg1 w] by blast
  from generateVoice_prefix [of w env cfg] generateVoice_playing [of env cfg w]
    generateVoice_constructs [of w env cfg] two over run_initial [of LANGS steps]
  show ?thesis by (intro conjI)
qed

theorem generateVoice_single_flight_witness:
  "store_synthesizer
     (fst (generateVoice (sdkWith (SpeakStarted (Some (OnResult SynthesizingAudioCompleted)))) noteConfig
             initialWorld))
     = Some 0
   \<and> 0 \<notin> set (live (fst (generateVoice (sdkWith (SpeakStarted None)) noteConfig
                          (fst (generateVoice
                                  (sdkWith (SpeakStarted (Some (OnResult SynthesizingAudioCompleted))))
                                  noteConfig initialWorld)))))
   \<and> length (live (run tips
                     [Invoke (sdkWith (SpeakStarted (Some (OnResult SynthesizingAudioCompleted)))) noteConfig,
                      Invoke (sdkWith (SpeakStarted None)) noteConfig,
                      Callback noteConfig (OnResult SynthesizingAudioCompleted)]
                     initialWorld))
     \<le> 1"
proof -
  let ?ok = "sdkWith (SpeakStarted (Some (OnResult SynthesizingAudioCompleted)))"
  let ?env = "sdkWith (SpeakStarted None)"
  have p: "fst (snd (generateVoice ?ok noteConfig initialWorld)) = Pending" by code_simp
  have f: "fresh initialWorld = 0" by (simp add: initialWorld_def)
  from generateVoice_single_flight [where w = initialWorld and ?env1.0 = ?ok and ?cfg1.0 = noteConfig
      and env = ?env and cfg = noteConfig and LANGS = tips
      and steps = "[Invoke ?ok noteConfig, Invoke ?env noteConfig,
                    Callback noteConfig (OnResult SynthesizingAudioCompleted)]"] p
  show ?thesis unfolding f by blast
qed

end
